theory Spec2Isabelle
  imports Main "HOL-Library.Word"
begin

unbundle bit_operations_syntax

section \<open>Command-line front end: default output name\<close>

text \<open>
  \<^verbatim>\<open>Brainfuck::Target\<close>: the enumeration is declared in \<^verbatim>\<open>Brainfuck.hpp\<close>; its seven values are
  the ones \<^verbatim>\<open>main\<close> puts into \<^verbatim>\<open>targetMap\<close> and \<^verbatim>\<open>getSuffix\<close> switches over.
\<close>

datatype Target = kC | kXbyakC | kWinX86 | kWinX64 | kElfX86 | kElfX64 | kElfArmeabi

text \<open>
  \<^verbatim>\<open>std::string::find_last_of(char)\<close>: the index of the last occurrence of the character,
  \<^verbatim>\<open>npos\<close> (here \<open>None\<close>) when there is none.
\<close>

fun find_last_of :: "string \<Rightarrow> char \<Rightarrow> nat option" where
  "find_last_of [] c = None"
| "find_last_of (x # xs) c =
     (case find_last_of xs c of
        Some i \<Rightarrow> Some (Suc i)
      | None \<Rightarrow> (if x = c then Some 0 else None))"

text \<open>\<^verbatim>\<open>removeDirectoryPart\<close>: \<^verbatim>\<open>pos == npos ? filepath : filepath.substr(pos + 1)\<close>.\<close>

definition removeDirectoryPart :: "string \<Rightarrow> string" where
  "removeDirectoryPart filepath =
     (case find_last_of filepath CHR ''/'' of
        None \<Rightarrow> filepath
      | Some pos \<Rightarrow> drop (pos + 1) filepath)"

text \<open>\<^verbatim>\<open>removeSuffix\<close>: \<^verbatim>\<open>pos == npos ? (filename + ".") : filename.substr(0, pos)\<close>.\<close>

definition removeSuffix :: "string \<Rightarrow> string" where
  "removeSuffix filename =
     (case find_last_of filename CHR ''.'' of
        None \<Rightarrow> filename @ ''.''
      | Some pos \<Rightarrow> take pos filename)"

text \<open>\<^verbatim>\<open>getSuffix\<close>: the switch over the target; its \<^verbatim>\<open>default\<close> branch is unreachable for the
  seven enumerators.\<close>

fun getSuffix :: "Target \<Rightarrow> string" where
  "getSuffix kC = ''.c''"
| "getSuffix kXbyakC = ''.c''"
| "getSuffix kWinX86 = ''.exe''"
| "getSuffix kWinX64 = ''.exe''"
| "getSuffix kElfX86 = ''.out''"
| "getSuffix kElfX64 = ''.out''"
| "getSuffix kElfArmeabi = ''.out''"

definition getDefaultOutputName :: "string \<Rightarrow> Target \<Rightarrow> string" where
  "getDefaultOutputName inputFile targetType =
     removeSuffix (removeDirectoryPart inputFile) @ getSuffix targetType"

text \<open>
  The output name as the specification words it: the input's basename, that is the path
  with its directory part removed (everything up to and including the last slash) and its
  trailing extension removed (the last dot and what follows it, when there is a dot),
  followed by the suffix of the target.
\<close>

definition spec_basename :: "string \<Rightarrow> string" where
  "spec_basename path = rev (takeWhile (\<lambda>c. c \<noteq> CHR ''/'') (rev path))"

definition spec_strip_extension :: "string \<Rightarrow> string" where
  "spec_strip_extension name =
     (if CHR ''.'' \<in> set name
      then rev (tl (dropWhile (\<lambda>c. c \<noteq> CHR ''.'') (rev name)))
      else name)"

fun spec_suffix :: "Target \<Rightarrow> string" where
  "spec_suffix t =
     (if t = kC \<or> t = kXbyakC then ''.c''
      else if t = kWinX86 \<or> t = kWinX64 then ''.exe''
      else ''.out'')"

definition spec_output_name :: "string \<Rightarrow> Target \<Rightarrow> string" where
  "spec_output_name path t = spec_strip_extension (spec_basename path) @ spec_suffix t"

definition has_doubled_dot :: "string \<Rightarrow> bool" where
  "has_doubled_dot s = (\<exists>i. Suc i < length s \<and> s ! i = CHR ''.'' \<and> s ! Suc i = CHR ''.'')"


section \<open>IR operations\<close>

text \<open>
  Modelled from the spec: the IR operation type is declared in \<^verbatim>\<open>Brainfuck.hpp\<close>, which is
  not among the sources; the tags and operands are those of the table in section 3 of the
  specification, one per emit hook of the generators. Operands are C++ \<^verbatim>\<open>int\<close>s.
\<close>

datatype ir =
    MovePtr int
  | Add int
  | Assign int
  | Putchar
  | Getchar
  | LoopStart
  | LoopEnd
  | IfStart
  | IfEnd
  | SearchZero int
  | AddVar int
  | SubVar int
  | AddMulVar int int
  | InfLoop
  | BreakPoint

text \<open>
  Valid bracket pairing of an IR program: every \<open>LoopEnd\<close> closes the innermost open
  \<open>LoopStart\<close>, every \<open>IfEnd\<close> the innermost open \<open>IfStart\<close>, and nothing stays open.
  The first argument is the stack of brackets that are open.
\<close>

datatype bracket = BLoop | BIf

fun paired :: "bracket list \<Rightarrow> ir list \<Rightarrow> bool" where
  "paired st [] = (st = [])"
| "paired st (LoopStart # xs) = paired (BLoop # st) xs"
| "paired st (IfStart # xs) = paired (BIf # st) xs"
| "paired st (LoopEnd # xs) = (case st of BLoop # st' \<Rightarrow> paired st' xs | _ \<Rightarrow> False)"
| "paired st (IfEnd # xs) = (case st of BIf # st' \<Rightarrow> paired st' xs | _ \<Rightarrow> False)"
| "paired st (_ # xs) = paired st xs"

definition well_paired :: "ir list \<Rightarrow> bool" where
  "well_paired prog = paired [] prog"

section \<open>The C textual backend (\<^verbatim>\<open>GeneratorC\<close>)\<close>

text \<open>Decimal output of \<^verbatim>\<open>operator<<(int)\<close>.\<close>

fun decimal :: "nat \<Rightarrow> string" where
  "decimal n =
     (if n < 10 then [''0123456789'' ! n]
      else decimal (n div 10) @ [''0123456789'' ! (n mod 10)])"

declare decimal.simps [simp del]

definition show_int :: "int \<Rightarrow> string" where
  "show_int i = (if i < 0 then ''-'' @ decimal (nat (- i)) else decimal (nat i))"

definition nl :: string where
  "nl = [CHR 0x0A]"

definition dquote :: string where
  "dquote = [CHR 0x22]"

text \<open>
  The generator object: the output stream (the text written so far), the indentation unit
  (two spaces by default) and the indentation level.

  Modelled from the spec: the base class \<^verbatim>\<open>SourceGenerator\<close> is not among the sources. Its
  members \<^verbatim>\<open>oStream\<close>, \<^verbatim>\<open>indent\<close> and \<^verbatim>\<open>indentLevel\<close> are the ones \<^verbatim>\<open>GeneratorC\<close> uses; the level
  starts at 0 and \<^verbatim>\<open>emitIndent\<close> writes the indentation unit once per level (section 4.4:
  textual backends track an indentation depth).
\<close>

record SourceGenerator =
  oStream :: string
  indent :: string
  indentLevel :: int

definition GeneratorC :: "string \<Rightarrow> SourceGenerator" where
  "GeneratorC indent' = \<lparr>oStream = [], indent = indent', indentLevel = 0\<rparr>"

definition put :: "string \<Rightarrow> SourceGenerator \<Rightarrow> SourceGenerator" where
  "put str g = g\<lparr>oStream := oStream g @ str\<rparr>"

definition emitIndent :: "SourceGenerator \<Rightarrow> SourceGenerator" where
  "emitIndent g = put (concat (replicate (nat (indentLevel g)) (indent g))) g"

definition incIndent :: "SourceGenerator \<Rightarrow> SourceGenerator" where
  "incIndent g = g\<lparr>indentLevel := indentLevel g + 1\<rparr>"

definition decIndent :: "SourceGenerator \<Rightarrow> SourceGenerator" where
  "decIndent g = g\<lparr>indentLevel := indentLevel g - 1\<rparr>"

text \<open>The text \<^verbatim>\<open>emitHeaderImpl\<close> writes before the two indented declarations.\<close>

definition header_text :: string where
  "header_text =
     ''#include <signal.h>'' @ nl @
     ''#include <stdio.h>'' @ nl @
     ''#include <stdlib.h>'' @ nl @
     ''#include <string.h>'' @ nl @ nl @
     ''#define MEMORY_SIZE 65536'' @ nl @ nl @
     ''#ifdef _MSC_VER'' @ nl @
     ''#  define debugbreak __debugbreak'' @ nl @
     ''#else'' @ nl @
     ''__attribute__((gnu_inline, always_inline))'' @ nl @
     ''__inline__ static void'' @ nl @
     ''debugbreak(void)'' @ nl @
     ''{'' @ nl @
     ''#  if defined(__i386__) || defined(__x86_64__)'' @ nl @
     ''  __asm__ volatile('' @ dquote @ ''int $0x03'' @ dquote @ '');'' @ nl @
     ''#  elif defined(__thumb__)'' @ nl @
     ''  __asm__ volatile('' @ dquote @ ''.inst 0xde01'' @ dquote @ '');'' @ nl @
     ''#  elif defined(__arm__) && !defined(__thumb__)'' @ nl @
     ''  __asm__ volatile('' @ dquote @ ''.inst 0xe7f001f0'' @ dquote @ '');'' @ nl @
     ''#  elif defined(__aarch64__) && defined(__APPLE__)'' @ nl @
     ''  __builtin_trap();'' @ nl @
     ''#  elif defined(__aarch64__)'' @ nl @
     ''  __asm__ volatile('' @ dquote @ ''.inst 0xd4200000'' @ dquote @ '');'' @ nl @
     ''#  elif defined(_WIN32)'' @ nl @
     ''  __builtin_trap();'' @ nl @
     ''#  else'' @ nl @
     ''  raise(SIGTRAP);'' @ nl @
     ''#  endif'' @ nl @
     ''}'' @ nl @
     ''#endif'' @ nl @ nl @
     ''int'' @ nl @
     ''main(void)'' @ nl @
     ''{'' @ nl"

definition emitHeaderImpl :: "SourceGenerator \<Rightarrow> SourceGenerator" where
  "emitHeaderImpl g =
     incIndent
       (put (header_text @
             indent g @ ''unsigned char memory[MEMORY_SIZE] = {0};'' @ nl @
             indent g @ ''unsigned char *p = memory;'' @ nl @ nl) g)"

definition emitFooterImpl :: "SourceGenerator \<Rightarrow> SourceGenerator" where
  "emitFooterImpl g =
     put (indent g @ ''putchar('' @ [CHR 0x27, CHR 0x5C, CHR ''n'', CHR 0x27] @ '');'' @ nl @ nl @
          indent g @ ''return EXIT_SUCCESS;'' @ nl @
          ''}'' @ nl) g"

definition emitMovePointerImpl :: "int \<Rightarrow> SourceGenerator \<Rightarrow> SourceGenerator" where
  "emitMovePointerImpl op1 g =
     (let g = emitIndent g in
      if op1 > 0 then
        (if op1 = 1 then put (''p++;'' @ nl) g
         else put (''p += '' @ show_int op1 @ '';'' @ nl) g)
      else
        (if op1 = - 1 then put (''p--;'' @ nl) g
         else put (''p -= '' @ show_int (- op1) @ '';'' @ nl) g))"

definition emitAddImpl :: "int \<Rightarrow> SourceGenerator \<Rightarrow> SourceGenerator" where
  "emitAddImpl op1 g =
     (let g = emitIndent g in
      if op1 > 0 then
        (if op1 = 1 then put (''(*p)++;'' @ nl) g
         else put (''*p += '' @ show_int op1 @ '';'' @ nl) g)
      else
        (if op1 = - 1 then put (''(*p)--;'' @ nl) g
         else put (''*p -= '' @ show_int (- op1) @ '';'' @ nl) g))"

definition emitPutcharImpl :: "SourceGenerator \<Rightarrow> SourceGenerator" where
  "emitPutcharImpl g = put (''putchar(*p);'' @ nl) (emitIndent g)"

definition emitGetcharImpl :: "SourceGenerator \<Rightarrow> SourceGenerator" where
  "emitGetcharImpl g = put (''*p = (unsigned char) getchar();'' @ nl) (emitIndent g)"

definition emitLoopStartImpl :: "SourceGenerator \<Rightarrow> SourceGenerator" where
  "emitLoopStartImpl g = incIndent (put (''while (*p) {'' @ nl) (emitIndent g))"

definition emitLoopEndImpl :: "SourceGenerator \<Rightarrow> SourceGenerator" where
  "emitLoopEndImpl g = put (''}'' @ nl) (emitIndent (decIndent g))"

definition emitIfImpl :: "SourceGenerator \<Rightarrow> SourceGenerator" where
  "emitIfImpl g = incIndent (put (''if (*p) {'' @ nl) (emitIndent g))"

definition emitEndIfImpl :: "SourceGenerator \<Rightarrow> SourceGenerator" where
  "emitEndIfImpl g = emitLoopEndImpl g"

definition emitAssignImpl :: "int \<Rightarrow> SourceGenerator \<Rightarrow> SourceGenerator" where
  "emitAssignImpl op1 g = put (''*p = '' @ show_int op1 @ '';'' @ nl) (emitIndent g)"

definition emitSearchZeroImpl :: "int \<Rightarrow> SourceGenerator \<Rightarrow> SourceGenerator" where
  "emitSearchZeroImpl op1 g =
     (let g = emitIndent g in
      if op1 > 0 then
        (if op1 = 1 then put (''p = memchr(p, 0, sizeof(memory));'' @ nl) g
         else put (''for (; *p; p += '' @ show_int op1 @ '');'' @ nl) g)
      else
        (if op1 = - 1 then put (''for (; *p; p--);'' @ nl) g
         else put (''for (; *p; p -= '' @ show_int (- op1) @ '');'' @ nl) g))"

text \<open>The operand \<^verbatim>\<open>*(p + op1\<close> or \<^verbatim>\<open>*(p - -op1\<close> that the three offset hooks start with.\<close>

definition put_offset :: "int \<Rightarrow> SourceGenerator \<Rightarrow> SourceGenerator" where
  "put_offset op1 g =
     (if op1 > 0 then put (''*(p + '' @ show_int op1) g
      else put (''*(p - '' @ show_int (- op1)) g)"

definition emitAddVarImpl :: "int \<Rightarrow> SourceGenerator \<Rightarrow> SourceGenerator" where
  "emitAddVarImpl op1 g = put ('') += *p;'' @ nl) (put_offset op1 (emitIndent g))"

definition emitSubVarImpl :: "int \<Rightarrow> SourceGenerator \<Rightarrow> SourceGenerator" where
  "emitSubVarImpl op1 g = put ('') -= *p;'' @ nl) (put_offset op1 (emitIndent g))"

definition emitAddCMulVarImpl :: "int \<Rightarrow> int \<Rightarrow> SourceGenerator \<Rightarrow> SourceGenerator" where
  "emitAddCMulVarImpl op1 op2 g =
     put ('') += *p * '' @ show_int op2 @ '';'' @ nl) (put_offset op1 (emitIndent g))"

definition emitInfLoopImpl :: "SourceGenerator \<Rightarrow> SourceGenerator" where
  "emitInfLoopImpl g =
     (let g = put (''if (*p) {'' @ nl) (emitIndent g);
          g = put (indent g @ ''for (;;);'' @ nl) (emitIndent g)
      in put (''}'' @ nl) (emitIndent g))"

definition emitBreakPointImpl :: "SourceGenerator \<Rightarrow> SourceGenerator" where
  "emitBreakPointImpl g = put (''debugbreak();'' @ nl) (emitIndent g)"

text \<open>
  Modelled from the spec: the traversal lives in the base class \<^verbatim>\<open>CodeGenerator\<close>, which is
  not among the sources. Section 4.4: the framework invokes the header hook, walks the IR
  in order calling the hook of each operation's tag, then invokes the footer hook.
\<close>

fun emitOp :: "ir \<Rightarrow> SourceGenerator \<Rightarrow> SourceGenerator" where
  "emitOp (MovePtr d) = emitMovePointerImpl d"
| "emitOp (Add v) = emitAddImpl v"
| "emitOp (Assign v) = emitAssignImpl v"
| "emitOp Putchar = emitPutcharImpl"
| "emitOp Getchar = emitGetcharImpl"
| "emitOp LoopStart = emitLoopStartImpl"
| "emitOp LoopEnd = emitLoopEndImpl"
| "emitOp IfStart = emitIfImpl"
| "emitOp IfEnd = emitEndIfImpl"
| "emitOp (SearchZero d) = emitSearchZeroImpl d"
| "emitOp (AddVar off) = emitAddVarImpl off"
| "emitOp (SubVar off) = emitSubVarImpl off"
| "emitOp (AddMulVar off k) = emitAddCMulVarImpl off k"
| "emitOp InfLoop = emitInfLoopImpl"
| "emitOp BreakPoint = emitBreakPointImpl"

fun emitOps :: "ir list \<Rightarrow> SourceGenerator \<Rightarrow> SourceGenerator" where
  "emitOps [] g = g"
| "emitOps (x # xs) g = emitOps xs (emitOp x g)"

definition generateC :: "string \<Rightarrow> ir list \<Rightarrow> SourceGenerator" where
  "generateC indent' prog = emitFooterImpl (emitOps prog (emitHeaderImpl (GeneratorC indent')))"

text \<open>The indentation level after the header and each prefix of the traversal.\<close>

definition level_after :: "string \<Rightarrow> ir list \<Rightarrow> nat \<Rightarrow> int" where
  "level_after indent' prog k =
     indentLevel (emitOps (take k prog) (emitHeaderImpl (GeneratorC indent')))"

text \<open>How one hook moves the level: up at an opening bracket, down at a closing one.\<close>

fun level_delta :: "ir \<Rightarrow> int" where
  "level_delta LoopStart = 1"
| "level_delta IfStart = 1"
| "level_delta LoopEnd = - 1"
| "level_delta IfEnd = - 1"
| "level_delta _ = 0"


section \<open>The x86 ELF backend (\<^verbatim>\<open>GeneratorElfX86\<close>)\<close>

type_synonym u8 = "8 word"

text \<open>
  The \<open>n\<close> low-order bytes of the two's complement representation of a value, least
  significant byte first: what writing an \<open>n\<close>-byte integer object does on the little-endian
  hosts the generator runs on.
\<close>

fun le_bytes :: "nat \<Rightarrow> int \<Rightarrow> u8 list" where
  "le_bytes 0 v = []"
| "le_bytes (Suc n) v = word_of_int v # le_bytes n (v div 256)"

text \<open>
  The generator object: the bytes of the output stream, its put position, and the stack of
  loop start positions.

  Modelled from the spec: the base class \<^verbatim>\<open>BinaryGenerator\<close> is not among the sources. Its
  members are the ones \<^verbatim>\<open>GeneratorElfX86\<close> uses: \<^verbatim>\<open>write\<close> (here \<open>write_bytes\<close>) stores the bytes of its argument at the
  put position, over what is there and extending the stream at its end, and advances the
  position; \<^verbatim>\<open>tellp\<close> reads the position and \<^verbatim>\<open>seekp\<close> sets it (section 3: a byte sink, seekable
  for backpatching, and a stack of deferred branch sites).
\<close>

record BinaryGenerator =
  sink :: "u8 list"
  tellp :: nat
  loopStack :: "nat list"

definition GeneratorElfX86 :: BinaryGenerator where
  "GeneratorElfX86 = \<lparr>sink = [], tellp = 0, loopStack = []\<rparr>"

definition write_bytes :: "u8 list \<Rightarrow> BinaryGenerator \<Rightarrow> BinaryGenerator" where
  "write_bytes bs g =
     g\<lparr>sink := take (tellp g) (sink g) @ bs @ drop (tellp g + length bs) (sink g),
       tellp := tellp g + length bs\<rparr>"

definition seekp :: "nat \<Rightarrow> BinaryGenerator \<Rightarrow> BinaryGenerator" where
  "seekp off g = g\<lparr>tellp := off\<rparr>"

definition seekp_end :: "BinaryGenerator \<Rightarrow> BinaryGenerator" where
  "seekp_end g = g\<lparr>tellp := length (sink g)\<rparr>"

definition at_end :: "BinaryGenerator \<Rightarrow> bool" where
  "at_end g = (tellp g = length (sink g))"

text \<open>
  An object written before it is initialised (\<^verbatim>\<open>Elf32_Ehdr ehdr; write(ehdr);\<close>): \<open>n\<close> bytes
  of whatever the memory holds, given by the parameter \<open>junk\<close>.
\<close>

definition uninit :: "nat \<Rightarrow> u8 list \<Rightarrow> u8 list" where
  "uninit n junk = take n (junk @ replicate n 0)"

subsection \<open>ELF structures\<close>

text \<open>
  Modelled from the spec: \<^verbatim>\<open>util/elfsubset.h\<close> is not among the sources. The three structures
  and the constants are those of the ELF standard for 32-bit objects, which the header
  declares: \<^verbatim>\<open>Elf32_Ehdr\<close> (52 bytes), \<^verbatim>\<open>Elf32_Phdr\<close> (32 bytes), \<^verbatim>\<open>Elf32_Shdr\<close> (40 bytes).
\<close>

record Elf32_Ehdr =
  e_ident :: "u8 list"
  e_type :: nat
  e_machine :: nat
  e_version :: nat
  e_entry :: nat
  e_phoff :: nat
  e_shoff :: nat
  e_flags :: nat
  e_ehsize :: nat
  e_phentsize :: nat
  e_phnum :: nat
  e_shentsize :: nat
  e_shnum :: nat
  e_shstrndx :: nat

record Elf32_Phdr =
  p_type :: nat
  p_offset :: nat
  p_vaddr :: nat
  p_paddr :: nat
  p_filesz :: nat
  p_memsz :: nat
  p_flags :: nat
  p_align :: nat

record Elf32_Shdr =
  sh_name :: nat
  sh_type :: nat
  sh_flags :: nat
  sh_addr :: nat
  sh_offset :: nat
  sh_size :: nat
  sh_link :: nat
  sh_info :: nat
  sh_addralign :: nat
  sh_entsize :: nat

definition ehdr_bytes :: "Elf32_Ehdr \<Rightarrow> u8 list" where
  "ehdr_bytes h =
     take 16 (e_ident h @ replicate 16 0) @
     le_bytes 2 (int (e_type h)) @ le_bytes 2 (int (e_machine h)) @
     le_bytes 4 (int (e_version h)) @ le_bytes 4 (int (e_entry h)) @
     le_bytes 4 (int (e_phoff h)) @ le_bytes 4 (int (e_shoff h)) @
     le_bytes 4 (int (e_flags h)) @ le_bytes 2 (int (e_ehsize h)) @
     le_bytes 2 (int (e_phentsize h)) @ le_bytes 2 (int (e_phnum h)) @
     le_bytes 2 (int (e_shentsize h)) @ le_bytes 2 (int (e_shnum h)) @
     le_bytes 2 (int (e_shstrndx h))"

definition phdr_bytes :: "Elf32_Phdr \<Rightarrow> u8 list" where
  "phdr_bytes h =
     le_bytes 4 (int (p_type h)) @ le_bytes 4 (int (p_offset h)) @
     le_bytes 4 (int (p_vaddr h)) @ le_bytes 4 (int (p_paddr h)) @
     le_bytes 4 (int (p_filesz h)) @ le_bytes 4 (int (p_memsz h)) @
     le_bytes 4 (int (p_flags h)) @ le_bytes 4 (int (p_align h))"

definition shdr_bytes :: "Elf32_Shdr \<Rightarrow> u8 list" where
  "shdr_bytes h =
     le_bytes 4 (int (sh_name h)) @ le_bytes 4 (int (sh_type h)) @
     le_bytes 4 (int (sh_flags h)) @ le_bytes 4 (int (sh_addr h)) @
     le_bytes 4 (int (sh_offset h)) @ le_bytes 4 (int (sh_size h)) @
     le_bytes 4 (int (sh_link h)) @ le_bytes 4 (int (sh_info h)) @
     le_bytes 4 (int (sh_addralign h)) @ le_bytes 4 (int (sh_entsize h))"

definition sizeof_Ehdr :: nat where "sizeof_Ehdr = 52"
definition sizeof_Phdr :: nat where "sizeof_Phdr = 32"
definition sizeof_Shdr :: nat where "sizeof_Shdr = 40"

definition PT_LOAD :: nat where "PT_LOAD = 1"
definition PF_X :: nat where "PF_X = 1"
definition PF_W :: nat where "PF_W = 2"
definition PF_R :: nat where "PF_R = 4"
definition SHT_NULL :: nat where "SHT_NULL = 0"
definition SHT_PROGBITS :: nat where "SHT_PROGBITS = 1"
definition SHT_STRTAB :: nat where "SHT_STRTAB = 3"
definition SHT_NOBITS :: nat where "SHT_NOBITS = 8"
definition SHF_WRITE :: nat where "SHF_WRITE = 1"
definition SHF_ALLOC :: nat where "SHF_ALLOC = 2"
definition SHF_EXECINSTR :: nat where "SHF_EXECINSTR = 4"
definition ET_EXEC :: nat where "ET_EXEC = 2"
definition EM_386 :: nat where "EM_386 = 3"
definition EV_CURRENT :: nat where "EV_CURRENT = 1"

text \<open>
  \<^verbatim>\<open>e_ident\<close> as the footer fills it: magic, \<^verbatim>\<open>ELFCLASS32\<close>, \<^verbatim>\<open>ELFDATA2LSB\<close>, \<^verbatim>\<open>EV_CURRENT\<close>,
  \<^verbatim>\<open>ELFOSABI_LINUX\<close>, ABI version 0, and 0 at \<^verbatim>\<open>EI_PAD\<close> (index 9). The six bytes after it
  are never assigned.
\<close>

definition elf_ident :: "u8 list \<Rightarrow> u8 list" where
  "elf_ident junk = [0x7f, 0x45, 0x4c, 0x46, 1, 1, 1, 3, 0, 0] @ uninit 6 junk"

subsection \<open>Constants of the generator\<close>

definition kTextAddr :: nat where "kTextAddr = 0x04048000"
definition kBssAddr :: nat where "kBssAddr = 0x04248000"
definition kHeaderSize :: nat where "kHeaderSize = sizeof_Ehdr + sizeof_Phdr * 2"
definition kFooterSize :: nat where "kFooterSize = sizeof_Shdr * 4"

text \<open>\<^verbatim>\<open>"\0.text\0.shstrtbl\0.bss"\<close> with its terminating zero: 22 bytes.\<close>

definition cstr :: "string \<Rightarrow> u8 list" where
  "cstr s = map (\<lambda>c. of_nat (of_char c)) s"

definition kShStrTbl :: "u8 list" where
  "kShStrTbl = [0] @ cstr ''.text'' @ [0] @ cstr ''.shstrtbl'' @ [0] @ cstr ''.bss'' @ [0]"

subsection \<open>Hooks\<close>

definition elf_emitHeaderImpl :: "u8 list \<Rightarrow> BinaryGenerator \<Rightarrow> BinaryGenerator" where
  "elf_emitHeaderImpl junk g =
     (let g = write_bytes (uninit sizeof_Ehdr junk) g;
          g = write_bytes (uninit sizeof_Phdr junk) g;
          g = write_bytes (uninit sizeof_Phdr junk) g;
          g = write_bytes [0xb9] g
      in write_bytes (le_bytes 4 (int kBssAddr)) g)"

definition elf_emitMovePointerImpl :: "int \<Rightarrow> BinaryGenerator \<Rightarrow> BinaryGenerator" where
  "elf_emitMovePointerImpl op1 g =
     (if op1 > 0 then
        (if op1 = 1 then write_bytes [0x41] g
         else write_bytes (le_bytes 4 op1) (write_bytes [0x81, 0xc1] g))
      else
        (if op1 = - 1 then write_bytes [0x49] g
         else write_bytes (le_bytes 4 (- op1)) (write_bytes [0x81, 0xe9] g)))"

definition elf_emitAddImpl :: "int \<Rightarrow> BinaryGenerator \<Rightarrow> BinaryGenerator" where
  "elf_emitAddImpl op1 g =
     (if op1 > 0 then
        (if op1 = 1 then write_bytes [0xfe, 0x01] g
         else write_bytes (le_bytes 1 op1) (write_bytes [0x80, 0x01] g))
      else
        (if op1 = - 1 then write_bytes [0xfe, 0x09] g
         else write_bytes (le_bytes 1 (- op1)) (write_bytes [0x80, 0x29] g)))"

definition elf_emitPutcharImpl :: "BinaryGenerator \<Rightarrow> BinaryGenerator" where
  "elf_emitPutcharImpl g =
     (let g = write_bytes (le_bytes 4 0x04) (write_bytes [0xb8] g);
          g = write_bytes (le_bytes 4 0x01) (write_bytes [0xba] g);
          g = write_bytes (le_bytes 4 0x01) (write_bytes [0xbb] g)
      in write_bytes [0xcd, 0x80] g)"

definition elf_emitGetcharImpl :: "BinaryGenerator \<Rightarrow> BinaryGenerator" where
  "elf_emitGetcharImpl g =
     (let g = write_bytes (le_bytes 4 0x03) (write_bytes [0xb8] g);
          g = write_bytes (le_bytes 4 0x01) (write_bytes [0xba] g);
          g = write_bytes (le_bytes 4 0x00) (write_bytes [0xbb] g)
      in write_bytes [0xcd, 0x80] g)"

definition elf_emitLoopStartImpl :: "BinaryGenerator \<Rightarrow> BinaryGenerator" where
  "elf_emitLoopStartImpl g =
     (let g = g\<lparr>loopStack := tellp g # loopStack g\<rparr>;
          g = write_bytes (le_bytes 1 0x00) (write_bytes [0x80, 0x39] g)
      in write_bytes (le_bytes 4 0x00000000) (write_bytes [0x0f, 0x84] g))"

text \<open>
  \<^verbatim>\<open>emitLoopEndImpl\<close>. \<^verbatim>\<open>loopStack.top()\<close> of an empty stack has no defined result: \<open>None\<close>.
  The near displacement is written as \<^verbatim>\<open>write(offset - sizeof(u32))\<close>, an object of type
  \<^verbatim>\<open>size_t\<close>; \<open>sz\<close> is the size of that type on the host, 4 or 8 bytes.
\<close>

definition elf_emitLoopEndImpl :: "nat \<Rightarrow> BinaryGenerator \<Rightarrow> BinaryGenerator option" where
  "elf_emitLoopEndImpl sz g =
     (case loopStack g of
        [] \<Rightarrow> None
      | pos # rest \<Rightarrow>
          (let offset = int pos - int (tellp g) - 1;
               g = (if offset - 1 < - 128
                    then write_bytes (le_bytes sz (offset - 4)) (write_bytes [0xe9] g)
                    else write_bytes (le_bytes 1 (offset - 1)) (write_bytes [0xeb] g));
               curPos = tellp g;
               g = seekp (pos + 5) g;
               g = write_bytes (le_bytes 4 (int curPos - int (tellp g) - 4)) g;
               g = seekp_end g
           in Some (g\<lparr>loopStack := rest\<rparr>)))"

definition elf_emitEndIfImpl :: "BinaryGenerator \<Rightarrow> BinaryGenerator option" where
  "elf_emitEndIfImpl g =
     (case loopStack g of
        [] \<Rightarrow> None
      | pos # rest \<Rightarrow>
          (let curPos = tellp g;
               g = seekp (pos + 5) g;
               g = write_bytes (le_bytes 4 (int curPos - int (tellp g) - 4)) g;
               g = seekp_end g
           in Some (g\<lparr>loopStack := rest\<rparr>)))"

text \<open>
  Modelled from the spec: \<^verbatim>\<open>emitIfImpl\<close> is called by \<^verbatim>\<open>emitInfLoopImpl\<close> but is not defined in
  \<^verbatim>\<open>GeneratorElfX86.hpp\<close>. \<^verbatim>\<open>emitEndIfImpl\<close> pops the position the hook pushed and patches the
  four bytes at that position plus 5, the layout of \<^verbatim>\<open>emitLoopStartImpl\<close>: a compare with zero
  and a forward conditional branch with a placeholder 32-bit displacement (section 4.4).
\<close>

definition elf_emitIfImpl :: "BinaryGenerator \<Rightarrow> BinaryGenerator" where
  "elf_emitIfImpl g = elf_emitLoopStartImpl g"

definition elf_emitAssignImpl :: "int \<Rightarrow> BinaryGenerator \<Rightarrow> BinaryGenerator" where
  "elf_emitAssignImpl op1 g = write_bytes (le_bytes 1 op1) (write_bytes [0xc6, 0x01] g)"

definition elf_emitAddVarImpl :: "int \<Rightarrow> BinaryGenerator \<Rightarrow> BinaryGenerator" where
  "elf_emitAddVarImpl op1 g =
     (let g = write_bytes [0x8a, 0x01] g in
      if op1 < - 128 \<or> 127 < op1 then write_bytes (le_bytes 4 op1) (write_bytes [0x00, 0x81] g)
      else write_bytes (le_bytes 1 op1) (write_bytes [0x00, 0x41] g))"

definition elf_emitSubVarImpl :: "int \<Rightarrow> BinaryGenerator \<Rightarrow> BinaryGenerator" where
  "elf_emitSubVarImpl op1 g =
     (let g = write_bytes [0x8a, 0x01] g in
      if op1 < - 128 \<or> 127 < op1 then write_bytes (le_bytes 4 op1) (write_bytes [0x28, 0x81] g)
      else write_bytes (le_bytes 1 op1) (write_bytes [0x28, 0x41] g))"

definition elf_emitAddCMulVarImpl :: "int \<Rightarrow> int \<Rightarrow> BinaryGenerator \<Rightarrow> BinaryGenerator" where
  "elf_emitAddCMulVarImpl op1 op2 g =
     (if op2 > 0 then
        (let g = write_bytes (le_bytes 1 op2) (write_bytes [0xb0] g);
             g = write_bytes [0xf6, 0x21] g
         in if op1 < - 128 \<or> 127 < op1 then write_bytes (le_bytes 4 op1) (write_bytes [0x00, 0x81] g)
            else write_bytes (le_bytes 1 op1) (write_bytes [0x00, 0x41] g))
      else
        (let g = write_bytes (le_bytes 1 (- op2)) (write_bytes [0xb0] g);
             g = write_bytes [0xf6, 0x21] g
         in if op1 < - 128 \<or> 127 < op1 then write_bytes (le_bytes 4 op1) (write_bytes [0x28, 0x81] g)
            else write_bytes (le_bytes 1 op1) (write_bytes [0x28, 0x41] g)))"

definition elf_emitInfLoopImpl :: "BinaryGenerator \<Rightarrow> BinaryGenerator option" where
  "elf_emitInfLoopImpl g =
     (let g = elf_emitIfImpl g;
          g = write_bytes [0xeb] g;
          g = write_bytes (le_bytes 1 (- 2)) g
      in elf_emitEndIfImpl g)"

text \<open>The four section headers and the three program-file headers the footer builds.\<close>

definition shdr_null :: Elf32_Shdr where
  "shdr_null =
     \<lparr>sh_name = 0, sh_type = SHT_NULL, sh_flags = 0, sh_addr = 0, sh_offset = 0, sh_size = 0,
      sh_link = 0, sh_info = 0, sh_addralign = 0, sh_entsize = 0\<rparr>"

definition shdr_shstrtbl :: "nat \<Rightarrow> Elf32_Shdr" where
  "shdr_shstrtbl codeSize =
     \<lparr>sh_name = 7, sh_type = SHT_STRTAB, sh_flags = 0, sh_addr = 0,
      sh_offset = kHeaderSize + codeSize, sh_size = length kShStrTbl,
      sh_link = 0, sh_info = 0, sh_addralign = 1, sh_entsize = 0\<rparr>"

definition shdr_text :: "nat \<Rightarrow> Elf32_Shdr" where
  "shdr_text codeSize =
     \<lparr>sh_name = 1, sh_type = SHT_PROGBITS, sh_flags = SHF_EXECINSTR OR SHF_ALLOC,
      sh_addr = kTextAddr + kHeaderSize, sh_offset = kHeaderSize, sh_size = codeSize,
      sh_link = 0, sh_info = 0, sh_addralign = 4, sh_entsize = 0\<rparr>"

definition shdr_bss :: Elf32_Shdr where
  "shdr_bss =
     \<lparr>sh_name = 17, sh_type = SHT_NOBITS, sh_flags = SHF_ALLOC OR SHF_WRITE,
      sh_addr = kBssAddr, sh_offset = 0x00001000, sh_size = 0x00010000,
      sh_link = 0, sh_info = 0, sh_addralign = 0x00000010, sh_entsize = 0\<rparr>"

definition elf_header :: "u8 list \<Rightarrow> nat \<Rightarrow> Elf32_Ehdr" where
  "elf_header junk codeSize =
     \<lparr>e_ident = elf_ident junk, e_type = ET_EXEC, e_machine = EM_386, e_version = EV_CURRENT,
      e_entry = kTextAddr + kHeaderSize, e_phoff = sizeof_Ehdr,
      e_shoff = kHeaderSize + length kShStrTbl + codeSize, e_flags = 0,
      e_ehsize = sizeof_Ehdr, e_phentsize = sizeof_Phdr, e_phnum = 2,
      e_shentsize = sizeof_Shdr, e_shnum = 4, e_shstrndx = 1\<rparr>"

definition phdr_text :: "nat \<Rightarrow> Elf32_Phdr" where
  "phdr_text codeSize =
     \<lparr>p_type = PT_LOAD, p_offset = 0, p_vaddr = kTextAddr, p_paddr = kTextAddr,
      p_filesz = kHeaderSize + length kShStrTbl + kFooterSize + codeSize,
      p_memsz = kHeaderSize + length kShStrTbl + kFooterSize + codeSize,
      p_flags = PF_R OR PF_X, p_align = 0x00000100\<rparr>"

definition phdr_bss :: Elf32_Phdr where
  "phdr_bss =
     \<lparr>p_type = PT_LOAD, p_offset = 0x00001000, p_vaddr = kBssAddr, p_paddr = kBssAddr,
      p_filesz = 0, p_memsz = 0x00010000, p_flags = PF_R OR PF_W, p_align = 0x00200000\<rparr>"

text \<open>The exit sequence of the footer: newline, \<^verbatim>\<open>mov eax, 1; mov ebx, 0; int 0x80\<close>.\<close>

definition elf_emitExit :: "BinaryGenerator \<Rightarrow> BinaryGenerator" where
  "elf_emitExit g =
     (let g = elf_emitAssignImpl 10 g;
          g = elf_emitPutcharImpl g;
          g = write_bytes (le_bytes 4 0x01) (write_bytes [0xb8] g);
          g = write_bytes (le_bytes 4 0x00) (write_bytes [0xbb] g)
      in write_bytes [0xcd, 0x80] g)"

definition elf_emitFooterImpl :: "u8 list \<Rightarrow> BinaryGenerator \<Rightarrow> BinaryGenerator" where
  "elf_emitFooterImpl junk g =
     (let g = elf_emitExit g;
          codeSize = tellp g - kHeaderSize;
          g = write_bytes kShStrTbl g;
          g = write_bytes (shdr_bytes shdr_null) g;
          g = write_bytes (shdr_bytes (shdr_shstrtbl codeSize)) g;
          g = write_bytes (shdr_bytes (shdr_text codeSize)) g;
          g = write_bytes (shdr_bytes shdr_bss) g;
          g = seekp 0 g;
          g = write_bytes (ehdr_bytes (elf_header junk codeSize)) g;
          g = write_bytes (phdr_bytes (phdr_text codeSize)) g;
          g = write_bytes (phdr_bytes phdr_bss) g
      in seekp_end g)"

text \<open>
  The traversal (section 4.4, as for the C backend). The hooks for \<open>SearchZero\<close> and
  \<open>BreakPoint\<close> are not defined in \<^verbatim>\<open>GeneratorElfX86.hpp\<close>; the code they append is the
  parameter \<open>ext\<close>.
\<close>

fun elf_emitOp :: "nat \<Rightarrow> (ir \<Rightarrow> u8 list) \<Rightarrow> ir \<Rightarrow> BinaryGenerator \<Rightarrow> BinaryGenerator option" where
  "elf_emitOp sz ext (MovePtr d) g = Some (elf_emitMovePointerImpl d g)"
| "elf_emitOp sz ext (Add v) g = Some (elf_emitAddImpl v g)"
| "elf_emitOp sz ext (Assign v) g = Some (elf_emitAssignImpl v g)"
| "elf_emitOp sz ext Putchar g = Some (elf_emitPutcharImpl g)"
| "elf_emitOp sz ext Getchar g = Some (elf_emitGetcharImpl g)"
| "elf_emitOp sz ext LoopStart g = Some (elf_emitLoopStartImpl g)"
| "elf_emitOp sz ext LoopEnd g = elf_emitLoopEndImpl sz g"
| "elf_emitOp sz ext IfStart g = Some (elf_emitIfImpl g)"
| "elf_emitOp sz ext IfEnd g = elf_emitEndIfImpl g"
| "elf_emitOp sz ext (SearchZero d) g = Some (write_bytes (ext (SearchZero d)) g)"
| "elf_emitOp sz ext (AddVar off) g = Some (elf_emitAddVarImpl off g)"
| "elf_emitOp sz ext (SubVar off) g = Some (elf_emitSubVarImpl off g)"
| "elf_emitOp sz ext (AddMulVar off k) g = Some (elf_emitAddCMulVarImpl off k g)"
| "elf_emitOp sz ext InfLoop g = elf_emitInfLoopImpl g"
| "elf_emitOp sz ext BreakPoint g = Some (write_bytes (ext BreakPoint) g)"

fun elf_emitOps :: "nat \<Rightarrow> (ir \<Rightarrow> u8 list) \<Rightarrow> ir list \<Rightarrow> BinaryGenerator \<Rightarrow> BinaryGenerator option" where
  "elf_emitOps sz ext [] g = Some g"
| "elf_emitOps sz ext (x # xs) g =
     (case elf_emitOp sz ext x g of None \<Rightarrow> None | Some g' \<Rightarrow> elf_emitOps sz ext xs g')"

definition generateElfX86 ::
    "nat \<Rightarrow> (ir \<Rightarrow> u8 list) \<Rightarrow> u8 list \<Rightarrow> ir list \<Rightarrow> BinaryGenerator option" where
  "generateElfX86 sz ext junk prog =
     map_option (elf_emitFooterImpl junk)
       (elf_emitOps sz ext prog (elf_emitHeaderImpl junk GeneratorElfX86))"

text \<open>Reading the emitted code back: the value of little-endian bytes, unsigned and signed.\<close>

fun le_val :: "u8 list \<Rightarrow> int" where
  "le_val [] = 0"
| "le_val (b # bs) = uint b + 256 * le_val bs"

definition le_signed :: "u8 list \<Rightarrow> int" where
  "le_signed bs =
     (if le_val bs < 2 ^ (8 * length bs - 1) then le_val bs else le_val bs - 2 ^ (8 * length bs))"

text \<open>
  The target of the unconditional jump at offset \<open>off\<close>: \<^verbatim>\<open>EB rel8\<close> (short) or \<^verbatim>\<open>E9 rel32\<close> (near);
  the displacement counts from the end of the instruction.
\<close>

definition jmp_target :: "u8 list \<Rightarrow> nat \<Rightarrow> int option" where
  "jmp_target code off =
     (case drop off code of
        op # rest \<Rightarrow>
          (if op = 0xeb \<and> 1 \<le> length rest then Some (int off + 2 + le_signed (take 1 rest))
           else if op = 0xe9 \<and> 4 \<le> length rest then Some (int off + 5 + le_signed (take 4 rest))
           else None)
      | [] \<Rightarrow> None)"

text \<open>The target of the conditional near jump \<^verbatim>\<open>0F 84 rel32\<close> (\<^verbatim>\<open>je\<close>) at offset \<open>off\<close>.\<close>

definition je_target :: "u8 list \<Rightarrow> nat \<Rightarrow> int option" where
  "je_target code off =
     (case drop off code of
        a # b # rest \<Rightarrow>
          (if a = 0x0f \<and> b = 0x84 \<and> 4 \<le> length rest
           then Some (int off + 6 + le_signed (take 4 rest)) else None)
      | _ \<Rightarrow> None)"

text \<open>The hooks without a branch append their code and leave the stack alone.\<close>

definition appends :: "BinaryGenerator \<Rightarrow> BinaryGenerator \<Rightarrow> bool" where
  "appends g g' = (at_end g' \<and> loopStack g' = loopStack g \<and> (\<exists>code. sink g' = sink g @ code))"


text \<open>The back jump \<^verbatim>\<open>emitLoopEndImpl\<close> writes at position \<open>cur\<close> for a loop that starts at \<open>pos\<close>.\<close>

definition back_jump :: "nat \<Rightarrow> nat \<Rightarrow> nat \<Rightarrow> u8 list" where
  "back_jump sz pos cur =
     (if int pos - int cur - 2 < - 128
      then [0xe9] @ le_bytes sz (int pos - int cur - 5)
      else [0xeb] @ le_bytes 1 (int pos - int cur - 2))"


text \<open>Brackets of the IR, and what a hook does to the stack of loop start positions.\<close>

fun is_open :: "ir \<Rightarrow> bool" where
  "is_open LoopStart = True"
| "is_open IfStart = True"
| "is_open _ = False"

fun is_close :: "ir \<Rightarrow> bool" where
  "is_close LoopEnd = True"
| "is_close IfEnd = True"
| "is_close _ = False"

definition stack_after :: "ir \<Rightarrow> nat \<Rightarrow> nat list \<Rightarrow> nat list" where
  "stack_after x n stk = (if is_open x then n # stk else if is_close x then tl stk else stk)"

text \<open>The machine code of the footer, and the name a section header refers to.\<close>

definition elf_exit_code :: "u8 list" where
  "elf_exit_code =
     [0xc6, 0x01, 0x0a,
      0xb8, 0x04, 0x00, 0x00, 0x00, 0xba, 0x01, 0x00, 0x00, 0x00,
      0xbb, 0x01, 0x00, 0x00, 0x00, 0xcd, 0x80,
      0xb8, 0x01, 0x00, 0x00, 0x00, 0xbb, 0x00, 0x00, 0x00, 0x00, 0xcd, 0x80]"

definition cstring_at :: "u8 list \<Rightarrow> nat \<Rightarrow> u8 list" where
  "cstring_at tbl i = takeWhile (\<lambda>b. b \<noteq> 0) (drop i tbl)"

text \<open>
  Reading a section name out of an ELF file: the section header table is at \<^verbatim>\<open>e_shoff\<close>
  (offset 32 of the file header), its entries are 40 bytes, \<^verbatim>\<open>e_shstrndx\<close> (offset 50) is the
  index of the header of the string table, \<^verbatim>\<open>sh_name\<close> is at offset 0 and \<^verbatim>\<open>sh_offset\<close> at
  offset 16 of a section header.
\<close>

definition field_at :: "u8 list \<Rightarrow> nat \<Rightarrow> nat \<Rightarrow> nat" where
  "field_at file off n = nat (le_val (take n (drop off file)))"

definition section_name :: "u8 list \<Rightarrow> nat \<Rightarrow> u8 list" where
  "section_name file i =
     (let shoff = field_at file 32 4;
          strndx = field_at file 50 2;
          stroff = field_at file (shoff + 40 * strndx + 16) 4;
          name = field_at file (shoff + 40 * i) 4
      in cstring_at (drop stroff file) name)"

text \<open>
  The layout of an output file with machine code \<open>code\<close>: file header, the two program
  headers, the code, the section name table and the four section headers.
\<close>

definition elf_file :: "u8 list \<Rightarrow> u8 list \<Rightarrow> u8 list" where
  "elf_file junk code =
       ehdr_bytes (elf_header junk (length code))
     @ phdr_bytes (phdr_text (length code))
     @ phdr_bytes phdr_bss
     @ code
     @ kShStrTbl
     @ shdr_bytes shdr_null
     @ shdr_bytes (shdr_shstrtbl (length code))
     @ shdr_bytes (shdr_text (length code))
     @ shdr_bytes shdr_bss"

text \<open>A generator whose \<open>SearchZero\<close> and \<open>BreakPoint\<close> hooks append nothing.\<close>

definition no_ext :: "ir \<Rightarrow> u8 list" where
  "no_ext x = []"

section \<open>The command-line front end (\<^verbatim>\<open>main\<close>)\<close>

text \<open>
  The values of the options after \<^verbatim>\<open>ap.parse(argc, argv)\<close>, as \<^verbatim>\<open>main\<close> reads them with
  \<^verbatim>\<open>ap.get\<close>, and the positional arguments (\<^verbatim>\<open>ap.getArguments()\<close>).
\<close>

record options =
  opt_help :: bool
  opt_version :: bool
  opt_minify :: bool
  opt_dump_ir :: bool
  opt_top_break_point :: bool
  opt_eval :: string
  opt_output :: string
  opt_target :: string
  opt_optimize :: int
  opt_heap_size :: nat
  opt_args :: "string list"

text \<open>
  The exceptions the core operations throw, by the kinds of section 7 of the
  specification; \<^verbatim>\<open>what()\<close> is the diagnostic string.
\<close>

datatype error = IoError string | SyntaxError string | OutOfBounds string | ConfigError string

fun what :: "error \<Rightarrow> string" where
  "what (IoError m) = m"
| "what (SyntaxError m) = m"
| "what (OutOfBounds m) = m"
| "what (ConfigError m) = m"

datatype CompileType = kIR | kJit

datatype content = TextFile string | BinaryFile "u8 list"

text \<open>
  Modelled from the spec: the class \<^verbatim>\<open>Brainfuck\<close> (\<^verbatim>\<open>Brainfuck.hpp\<close>) is not among the sources.
  Its operations are the ones \<^verbatim>\<open>main\<close> calls, with the results section 6 of the specification
  gives them: \<^verbatim>\<open>load\<close> yields the source text or fails, \<^verbatim>\<open>trim\<close> normalises it, \<^verbatim>\<open>compile\<close>
  yields the IR or fails, \<^verbatim>\<open>dumpIR\<close> and \<^verbatim>\<open>dumpXbyak\<close> print, \<^verbatim>\<open>execute\<close> prints what the program
  prints and may fail after that. The record also holds the rest of the environment:
  whether an output file can be opened, the texts of \<^verbatim>\<open>showUsage\<close> and \<^verbatim>\<open>showVersion\<close>, the
  generators that are not among the sources, and the three parameters of the x86 ELF
  generator.
\<close>

record core =
  c_load :: "string \<Rightarrow> error + string"
  c_load_cin :: "error + string"
  c_trim :: "string \<Rightarrow> string"
  c_compile :: "CompileType \<Rightarrow> bool \<Rightarrow> string \<Rightarrow> error + ir list"
  c_dumpIR :: "ir list \<Rightarrow> string"
  c_dumpXbyak :: "ir list \<Rightarrow> string"
  c_execute :: "nat \<Rightarrow> string \<Rightarrow> ir list option \<Rightarrow> string \<times> error option"
  c_can_open :: "string \<Rightarrow> bool"
  c_usage :: string
  c_version :: string
  c_other :: "Target \<Rightarrow> ir list \<Rightarrow> content"
  c_size_t :: nat
  c_ext :: "ir \<Rightarrow> u8 list"
  c_junk :: "u8 list"

text \<open>
  Modelled from the spec: \<^verbatim>\<open>Brainfuck::emit(stream, target)\<close> runs the generator of the target
  over the IR and writes to the stream (sections 4.4 and 6). The C and the x86 ELF
  generators are the ones above.
\<close>

definition emit :: "core \<Rightarrow> Target \<Rightarrow> ir list \<Rightarrow> content" where
  "emit env targetType prog =
     (case targetType of
        kC \<Rightarrow> TextFile (oStream (generateC ''  '' prog))
      | kElfX86 \<Rightarrow>
          (case generateElfX86 (c_size_t env) (c_ext env) (c_junk env) prog of
             Some g \<Rightarrow> BinaryFile (sink g)
           | None \<Rightarrow> BinaryFile [])
      | _ \<Rightarrow> c_other env targetType prog)"

text \<open>What the process leaves behind: exit code, standard output, standard error, files.\<close>

record outcome =
  exit_code :: int
  out :: string
  err :: string
  files :: "(string \<times> content) list"

definition EXIT_SUCCESS :: int where "EXIT_SUCCESS = 0"
definition EXIT_FAILURE :: int where "EXIT_FAILURE = 1"

text \<open>\<^verbatim>\<open>targetMap\<close>: the names of the targets.\<close>

definition targetMap :: "string \<Rightarrow> Target option" where
  "targetMap =
     [''c'' \<mapsto> kC, ''xbyakc'' \<mapsto> kXbyakC, ''winx86'' \<mapsto> kWinX86, ''winx64'' \<mapsto> kWinX64,
      ''elfx86'' \<mapsto> kElfX86, ''elfx64'' \<mapsto> kElfX64, ''elfarmeabi'' \<mapsto> kElfArmeabi]"

text \<open>
  The handler at the end of \<^verbatim>\<open>main\<close>:
  \<^verbatim>\<open>catch (const std::exception& e) { std::cerr << e.what() << std::endl; } return EXIT_SUCCESS;\<close>
  The argument \<open>printed\<close> is what went to standard output before the exception.
\<close>

definition caught :: "string \<Rightarrow> error \<Rightarrow> outcome" where
  "caught printed e = \<lparr>exit_code = EXIT_SUCCESS, out = printed, err = what e @ nl, files = []\<rparr>"

definition finish :: "int \<Rightarrow> string \<Rightarrow> string \<Rightarrow> outcome" where
  "finish code printed diagnostic = \<lparr>exit_code = code, out = printed, err = diagnostic, files = []\<rparr>"

text \<open>
  Loading the source in \<^verbatim>\<open>main\<close>: the \<^verbatim>\<open>--eval\<close> text, standard input for the argument \<^verbatim>\<open>-\<close>, or
  the file named by the first argument. The result is the source with the name
  \<^verbatim>\<open>inputFile\<close> (\<^verbatim>\<open>"a.b"\<close> unless a file was read), \<open>None\<close> when there is nothing to load.
\<close>

definition load_input :: "core \<Rightarrow> options \<Rightarrow> error + (string \<times> string) option" where
  "load_input env ap =
     (if opt_eval ap \<noteq> [] then Inr (Some (opt_eval ap, ''a.b''))
      else if length (opt_args ap) > 0 then
        (if hd (opt_args ap) = ''-''
         then (case c_load_cin env of Inl e \<Rightarrow> Inl e | Inr s \<Rightarrow> Inr (Some (s, ''a.b'')))
         else (case c_load env (hd (opt_args ap)) of
                 Inl e \<Rightarrow> Inl e
               | Inr s \<Rightarrow> Inr (Some (s, hd (opt_args ap)))))
      else Inr None)"

text \<open>The branch of \<^verbatim>\<open>main\<close> for a non-empty \<^verbatim>\<open>--target\<close>.\<close>

definition main_target :: "core \<Rightarrow> options \<Rightarrow> string \<Rightarrow> string \<Rightarrow> outcome" where
  "main_target env ap src inputFile =
     (case targetMap (opt_target ap) of
        None \<Rightarrow>
          finish EXIT_FAILURE []
            (''Option -t, --target: Invalid value: '' @ dquote @ opt_target ap @ dquote
             @ '' is specified'' @ nl)
      | Some targetType \<Rightarrow>
          (case c_compile env kJit (opt_top_break_point ap) src of
             Inl e \<Rightarrow> caught [] e
           | Inr code \<Rightarrow>
               (let outputFile =
                      (if opt_output ap = [] then getDefaultOutputName inputFile targetType
                       else opt_output ap)
                in if \<not> c_can_open env outputFile
                   then finish EXIT_FAILURE [] (''Failed to open: '' @ outputFile @ nl)
                   else \<lparr>exit_code = EXIT_SUCCESS, out = [], err = [],
                         files = [(outputFile, emit env targetType code)]\<rparr>)))"

text \<open>The last part of \<^verbatim>\<open>main\<close>: compile as the optimization level says, then execute.\<close>

definition main_execute :: "core \<Rightarrow> options \<Rightarrow> string \<Rightarrow> outcome" where
  "main_execute env ap src =
     (let heapSize = opt_heap_size ap; optLevel = opt_optimize ap in
      case (if optLevel = 1
            then (case c_compile env kIR (opt_top_break_point ap) src of
                    Inl e \<Rightarrow> Inl e | Inr code \<Rightarrow> Inr (Some code))
            else if optLevel > 1
            then (case c_compile env kJit (opt_top_break_point ap) src of
                    Inl e \<Rightarrow> Inl e | Inr code \<Rightarrow> Inr (Some code))
            else Inr None) of
        Inl e \<Rightarrow> caught [] e
      | Inr code \<Rightarrow>
          (case c_execute env heapSize src code of
             (printed, Some e) \<Rightarrow> caught printed e
           | (printed, None) \<Rightarrow> finish EXIT_SUCCESS printed []))"

text \<open>
  \<^verbatim>\<open>main\<close> of the current front end (the one with \<^verbatim>\<open>--eval\<close>, \<^verbatim>\<open>--output\<close> and
  \<^verbatim>\<open>--top-break-point\<close>). Its argument is the result of \<^verbatim>\<open>ap.parse\<close>, which throws on an
  unknown or malformed option.
\<close>

definition main :: "core \<Rightarrow> error + options \<Rightarrow> outcome" where
  "main env parsed =
     (case parsed of
        Inl e \<Rightarrow> caught [] e
      | Inr ap \<Rightarrow>
          if opt_help ap then finish EXIT_SUCCESS (c_usage env) []
          else if opt_version ap then finish EXIT_SUCCESS (c_version env) []
          else
            (case load_input env ap of
               Inl e \<Rightarrow> caught [] e
             | Inr None \<Rightarrow>
                 finish EXIT_FAILURE [] (''Please specify one brainfuck source code'' @ nl)
             | Inr (Some (loaded, inputFile)) \<Rightarrow>
                 (let src = c_trim env loaded in
                  if opt_minify ap then finish EXIT_SUCCESS (src @ nl) []
                  else if opt_dump_ir ap then
                    (case c_compile env kIR (opt_top_break_point ap) src of
                       Inl e \<Rightarrow> caught [] e
                     | Inr code \<Rightarrow> finish EXIT_SUCCESS (c_dumpIR env code) [])
                  else if opt_target ap \<noteq> [] then main_target env ap src inputFile
                  else main_execute env ap src)))"

subsection \<open>The earlier front end\<close>




subsection \<open>A concrete environment\<close>

text \<open>
  An environment for running the front ends on concrete command lines: every file holds
  the program \<^verbatim>\<open>+.\<close>, which compiles to \<open>Add 1; Putchar\<close> and prints the byte 1 and a newline.
\<close>

definition demo_compile :: "CompileType \<Rightarrow> bool \<Rightarrow> string \<Rightarrow> error + ir list" where
  "demo_compile kind tbp src = Inr [Add 1, Putchar]"

definition demo_load :: "string \<Rightarrow> error + string" where
  "demo_load path = Inr ''+.''"

definition demo_execute :: "nat \<Rightarrow> string \<Rightarrow> ir list option \<Rightarrow> string \<times> error option" where
  "demo_execute heap src code = ([CHR 0x01, CHR 0x0A], None)"

definition demo_dumpIR :: "ir list \<Rightarrow> string" where
  "demo_dumpIR code = ''IR dump'' @ nl"

definition demo_dumpXbyak :: "ir list \<Rightarrow> string" where
  "demo_dumpXbyak code = ''Xbyak code'' @ nl"

definition demo_can_open :: "string \<Rightarrow> bool" where
  "demo_can_open path = True"

definition demo_other :: "Target \<Rightarrow> ir list \<Rightarrow> content" where
  "demo_other t code = BinaryFile []"

definition demo_core :: core where
  "demo_core =
     \<lparr>c_load = demo_load, c_load_cin = Inr ''+.'', c_trim = id, c_compile = demo_compile,
      c_dumpIR = demo_dumpIR, c_dumpXbyak = demo_dumpXbyak, c_execute = demo_execute,
      c_can_open = demo_can_open, c_usage = ''usage'', c_version = ''version'',
      c_other = demo_other, c_size_t = 4, c_ext = no_ext, c_junk = []\<rparr>"

text \<open>The defaults of the options, with one input file.\<close>

definition run_file :: "string \<Rightarrow> options" where
  "run_file path =
     \<lparr>opt_help = False, opt_version = False, opt_minify = False, opt_dump_ir = False,
      opt_top_break_point = False, opt_eval = [], opt_output = [], opt_target = [],
      opt_optimize = 1, opt_heap_size = 65536, opt_args = [path]\<rparr>"

text \<open>Operations that throw.\<close>

definition failing_load :: "error \<Rightarrow> string \<Rightarrow> error + string" where
  "failing_load e path = Inl e"

definition failing_compile :: "error \<Rightarrow> CompileType \<Rightarrow> bool \<Rightarrow> string \<Rightarrow> error + ir list" where
  "failing_compile e kind tbp src = Inl e"

definition failing_execute ::
    "string \<Rightarrow> error \<Rightarrow> nat \<Rightarrow> string \<Rightarrow> ir list option \<Rightarrow> string \<times> error option" where
  "failing_execute printed e heap src code = (printed, Some e)"


subsection \<open>Generators that agree behind the file headers\<close>

text \<open>
  Two states of the generator with the same put position and stack and with streams of
  the same length that agree from offset \<open>M\<close> on, the position and the stacked positions
  being behind \<open>M\<close>: the states of two runs that differ in the bytes before \<open>M\<close> only.
\<close>

definition same_code :: "nat \<Rightarrow> BinaryGenerator \<Rightarrow> BinaryGenerator \<Rightarrow> bool" where
  "same_code M g1 g2 =
     (tellp g1 = tellp g2 \<and> loopStack g1 = loopStack g2
      \<and> length (sink g1) = length (sink g2) \<and> drop M (sink g1) = drop M (sink g2)
      \<and> M \<le> tellp g1 \<and> M \<le> length (sink g1) \<and> list_all (\<lambda>p. M \<le> p) (loopStack g1))"

text \<open>
  A file without its bytes 10 to 15, the bytes of \<^verbatim>\<open>e_ident\<close> behind \<^verbatim>\<open>EI_PAD\<close> in an ELF file;
  a text file is left as it is. \<open>blank_files\<close> does this to the files of an outcome.
\<close>

definition blank_ident :: "content \<Rightarrow> content" where
  "blank_ident c =
     (case c of TextFile t \<Rightarrow> TextFile t | BinaryFile bs \<Rightarrow> BinaryFile (take 10 bs @ drop 16 bs))"

definition blank_files :: "outcome \<Rightarrow> outcome" where
  "blank_files r = r\<lparr>files := map (\<lambda>(name, c). (name, blank_ident c)) (files r)\<rparr>"

section \<open>Running IR programs and the emitted C statements\<close>

text \<open>
  A machine state: the instructions before the current one (nearest first) and from the
  current one on, the data pointer as an index into the tape, the tape, the rest of
  standard input and what was written to standard output. The index of the current
  instruction is the length of \<open>before\<close>.
\<close>

record 'a mstate =
  before :: "'a list"
  after :: "'a list"
  ptr :: int
  tape :: "int \<Rightarrow> u8"
  inp :: "u8 list"
  outp :: "u8 list"

text \<open>
  One step runs on, ends the program (with everything it printed), stops at a breakpoint
  trap, or fails: a pointer out of bounds, a bracket without its partner.
\<close>

datatype 'a result = Running "'a mstate" | Finished "u8 list" | Trapped "u8 list" | Failed

definition start :: "'a list \<Rightarrow> u8 list \<Rightarrow> 'a mstate" where
  "start prog stdin =
     \<lparr>before = [], after = prog, ptr = 0, tape = (\<lambda>i. 0), inp = stdin, outp = []\<rparr>"

definition advance :: "'a mstate \<Rightarrow> 'a mstate" where
  "advance s = s\<lparr>before := hd (after s) # before s, after := tl (after s)\<rparr>"

fun run :: "('a mstate \<Rightarrow> 'a result) \<Rightarrow> nat \<Rightarrow> 'a mstate \<Rightarrow> 'a result" where
  "run step 0 s = Running s"
| "run step (Suc n) s = (case step s of Running s' \<Rightarrow> run step n s' | r \<Rightarrow> r)"

text \<open>What can be seen of a run from outside: whether it has ended, and the output.\<close>

datatype status = StillRunning | Ended | Trap | Failure

fun observe :: "'a result \<Rightarrow> status \<times> u8 list" where
  "observe (Running s) = (StillRunning, outp s)"
| "observe (Finished printed) = (Ended, printed)"
| "observe (Trapped printed) = (Trap, printed)"
| "observe Failed = (Failure, [])"

subsection \<open>Matching brackets\<close>

datatype bclass = BOpen | BClose | BPlain

text \<open>
  From behind an opening bracket to behind its closing bracket: \<open>d\<close> counts the brackets
  opened on the way.
\<close>

fun skip_fwd :: "('a \<Rightarrow> bclass) \<Rightarrow> nat \<Rightarrow> 'a list \<Rightarrow> 'a list \<Rightarrow> ('a list \<times> 'a list) option" where
  "skip_fwd cls d bs [] = None"
| "skip_fwd cls d bs (x # xs) =
     (case cls x of
        BOpen \<Rightarrow> skip_fwd cls (Suc d) (x # bs) xs
      | BClose \<Rightarrow> (if d = 0 then Some (x # bs, xs) else skip_fwd cls (d - 1) (x # bs) xs)
      | BPlain \<Rightarrow> skip_fwd cls d (x # bs) xs)"

text \<open>
  From a closing bracket back to behind its opening bracket, which is returned too.
\<close>

fun skip_bwd :: "('a \<Rightarrow> bclass) \<Rightarrow> nat \<Rightarrow> 'a list \<Rightarrow> 'a list \<Rightarrow> ('a \<times> 'a list \<times> 'a list) option" where
  "skip_bwd cls d [] xs = None"
| "skip_bwd cls d (b # bs) xs =
     (case cls b of
        BClose \<Rightarrow> skip_bwd cls (Suc d) bs (b # xs)
      | BOpen \<Rightarrow> (if d = 0 then Some (b, b # bs, xs) else skip_bwd cls (d - 1) bs (b # xs))
      | BPlain \<Rightarrow> skip_bwd cls d bs (b # xs))"

subsection \<open>The IR interpreter\<close>

text \<open>
  Modelled from the spec: the interpreter (\<^verbatim>\<open>Brainfuck::execute\<close>) is not among the sources.
  Section 3 gives the meaning of each operation and section 4.3 the contract: the tape
  has \<open>heap_size\<close> cells, zeroed; the pointer starts at 0; cell arithmetic wraps modulo 256;
  pointer arithmetic is checked against the bounds of the tape; \<open>LoopStart\<close> and \<open>IfStart\<close>
  go behind the matching end on a zero cell, \<open>LoopEnd\<close> goes back behind the matching start
  on a non-zero cell; a run that comes to a bracket whose partner is missing or of the
  other kind fails, the pairing of an IR program being valid; a newline is written after
  completion. What \<open>Getchar\<close> stores at the
  end of input is the parameter \<open>eof\<close>, applied to the cell: the specification leaves the
  cell unchanged (\<open>eof_unchanged\<close>). With \<open>no_eof\<close> a run that reads past the end of input
  fails, so that a run that does not fail has found a byte at every \<open>Getchar\<close>.
\<close>

definition in_bounds :: "nat \<Rightarrow> int \<Rightarrow> bool" where
  "in_bounds heap_size p = (0 \<le> p \<and> p < int heap_size)"

definition eof_unchanged :: "u8 \<Rightarrow> u8 option" where
  "eof_unchanged cell = Some cell"

definition no_eof :: "u8 \<Rightarrow> u8 option" where
  "no_eof cell = None"

fun ir_class :: "ir \<Rightarrow> bclass" where
  "ir_class LoopStart = BOpen"
| "ir_class IfStart = BOpen"
| "ir_class LoopEnd = BClose"
| "ir_class IfEnd = BClose"
| "ir_class _ = BPlain"

text \<open>\<open>SearchZero(d)\<close> for a stride other than 0: while the cell is not zero, \<open>p += d\<close>.\<close>

function search_zero :: "nat \<Rightarrow> (int \<Rightarrow> u8) \<Rightarrow> int \<Rightarrow> int \<Rightarrow> int option" where
  "search_zero heap_size t p d =
     (if d = 0 \<or> \<not> in_bounds heap_size p then None
      else if t p = 0 then Some p
      else search_zero heap_size t (p + d) d)"
  by pat_completeness auto
termination
  by (relation "measure (\<lambda>(heap_size, t, p, d).
        if 0 < d then nat (int heap_size - p) else nat (p + 1))")
     (auto simp: in_bounds_def)

declare search_zero.simps [simp del]

definition store :: "int \<Rightarrow> u8 \<Rightarrow> 'a mstate \<Rightarrow> 'a mstate" where
  "store a v s = s\<lparr>tape := (tape s)(a := v)\<rparr>"

text \<open>An update of the cell at offset \<open>off\<close> from the pointer, both cells inside the tape.\<close>

definition ir_update :: "nat \<Rightarrow> int \<Rightarrow> (u8 \<Rightarrow> u8) \<Rightarrow> ir mstate \<Rightarrow> ir result" where
  "ir_update heap_size off f s =
     (if in_bounds heap_size (ptr s) \<and> in_bounds heap_size (ptr s + off)
      then Running (advance (store (ptr s + off) (f (tape s (ptr s + off))) s))
      else Failed)"

definition ir_jump_fwd :: "ir mstate \<Rightarrow> ir result" where
  "ir_jump_fwd s =
     (case skip_fwd ir_class 0 (hd (after s) # before s) (tl (after s)) of
        None \<Rightarrow> Failed
      | Some (bs, xs) \<Rightarrow> Running (s\<lparr>before := bs, after := xs\<rparr>))"

definition execute_step :: "nat \<Rightarrow> (u8 \<Rightarrow> u8 option) \<Rightarrow> ir mstate \<Rightarrow> ir result" where
  "execute_step heap_size eof s =
     (case after s of
        [] \<Rightarrow> Finished (outp s @ [10])
      | x # rest \<Rightarrow>
          (case x of
             MovePtr d \<Rightarrow>
               (if in_bounds heap_size (ptr s + d) then Running (advance (s\<lparr>ptr := ptr s + d\<rparr>))
                else Failed)
           | Add v \<Rightarrow> ir_update heap_size 0 (\<lambda>c. c + word_of_int v) s
           | Assign v \<Rightarrow> ir_update heap_size 0 (\<lambda>c. word_of_int v) s
           | Putchar \<Rightarrow>
               (if in_bounds heap_size (ptr s)
                then Running (advance (s\<lparr>outp := outp s @ [tape s (ptr s)]\<rparr>))
                else Failed)
           | Getchar \<Rightarrow>
               (case inp s of
                  [] \<Rightarrow>
                    (case eof (tape s (ptr s)) of
                       None \<Rightarrow> Failed
                     | Some v \<Rightarrow> ir_update heap_size 0 (\<lambda>c. v) s)
                | b # bs \<Rightarrow> ir_update heap_size 0 (\<lambda>c. b) (s\<lparr>inp := bs\<rparr>))
           | LoopStart \<Rightarrow>
               (if \<not> in_bounds heap_size (ptr s) then Failed
                else if tape s (ptr s) = 0 then ir_jump_fwd s else Running (advance s))
           | IfStart \<Rightarrow>
               (if \<not> in_bounds heap_size (ptr s) then Failed
                else if tape s (ptr s) = 0 then ir_jump_fwd s else Running (advance s))
           | LoopEnd \<Rightarrow>
               (case skip_bwd ir_class 0 (before s) (after s) of
                  None \<Rightarrow> Failed
                | Some (opener, bs, xs) \<Rightarrow>
                    (if opener \<noteq> LoopStart \<or> \<not> in_bounds heap_size (ptr s) then Failed
                     else if tape s (ptr s) \<noteq> 0 then Running (s\<lparr>before := bs, after := xs\<rparr>)
                     else Running (advance s)))
           | IfEnd \<Rightarrow>
               (case skip_bwd ir_class 0 (before s) (after s) of
                  None \<Rightarrow> Failed
                | Some (opener, bs, xs) \<Rightarrow>
                    (if opener \<noteq> IfStart then Failed else Running (advance s)))
           | SearchZero d \<Rightarrow>
               (if \<not> in_bounds heap_size (ptr s) then Failed
                else if tape s (ptr s) = 0 then Running (advance s)
                else if d = 0 then Running s
                else (case search_zero heap_size (tape s) (ptr s) d of
                        None \<Rightarrow> Failed
                      | Some p \<Rightarrow> Running (advance (s\<lparr>ptr := p\<rparr>))))
           | AddVar off \<Rightarrow> ir_update heap_size off (\<lambda>c. c + tape s (ptr s)) s
           | SubVar off \<Rightarrow> ir_update heap_size off (\<lambda>c. c - tape s (ptr s)) s
           | AddMulVar off k \<Rightarrow> ir_update heap_size off (\<lambda>c. c + tape s (ptr s) * word_of_int k) s
           | InfLoop \<Rightarrow>
               (if \<not> in_bounds heap_size (ptr s) then Failed
                else if tape s (ptr s) = 0 then Running (advance s) else Running s)
           | BreakPoint \<Rightarrow> Trapped (outp s)))"

definition execute :: "nat \<Rightarrow> (u8 \<Rightarrow> u8 option) \<Rightarrow> nat \<Rightarrow> ir list \<Rightarrow> u8 list \<Rightarrow> ir result" where
  "execute heap_size eof n prog stdin = run (execute_step heap_size eof) n (start prog stdin)"

subsection \<open>The statements of the emitted C program\<close>

text \<open>
  The operand \<^verbatim>\<open>*(p + N)\<close> or \<^verbatim>\<open>*(p - N)\<close> of the statements with an offset.
\<close>

datatype cplace = PlusOff int | MinusOff int

text \<open>
  The statements \<^verbatim>\<open>GeneratorC\<close> prints between header and footer, one per line; \<open>stmt_text\<close>
  is the text of each.
\<close>

datatype cstmt =
    CPtrInc
  | CPtrAdd int
  | CPtrDec
  | CPtrSub int
  | CCellInc
  | CCellAdd int
  | CCellDec
  | CCellSub int
  | CPutchar
  | CGetchar
  | CWhile
  | CIf
  | CClose
  | CAssign int
  | CMemchr
  | CScanAdd int
  | CScanDec
  | CScanSub int
  | COffAdd cplace
  | COffSub cplace
  | COffMul cplace int
  | CForever
  | CDebugBreak

fun place_text :: "cplace \<Rightarrow> string" where
  "place_text (PlusOff n) = ''*(p + '' @ show_int n @ '')''"
| "place_text (MinusOff n) = ''*(p - '' @ show_int n @ '')''"

fun stmt_text :: "cstmt \<Rightarrow> string" where
  "stmt_text CPtrInc = ''p++;''"
| "stmt_text (CPtrAdd n) = ''p += '' @ show_int n @ '';''"
| "stmt_text CPtrDec = ''p--;''"
| "stmt_text (CPtrSub n) = ''p -= '' @ show_int n @ '';''"
| "stmt_text CCellInc = ''(*p)++;''"
| "stmt_text (CCellAdd n) = ''*p += '' @ show_int n @ '';''"
| "stmt_text CCellDec = ''(*p)--;''"
| "stmt_text (CCellSub n) = ''*p -= '' @ show_int n @ '';''"
| "stmt_text CPutchar = ''putchar(*p);''"
| "stmt_text CGetchar = ''*p = (unsigned char) getchar();''"
| "stmt_text CWhile = ''while (*p) {''"
| "stmt_text CIf = ''if (*p) {''"
| "stmt_text CClose = ''}''"
| "stmt_text (CAssign n) = ''*p = '' @ show_int n @ '';''"
| "stmt_text CMemchr = ''p = memchr(p, 0, sizeof(memory));''"
| "stmt_text (CScanAdd n) = ''for (; *p; p += '' @ show_int n @ '');''"
| "stmt_text CScanDec = ''for (; *p; p--);''"
| "stmt_text (CScanSub n) = ''for (; *p; p -= '' @ show_int n @ '');''"
| "stmt_text (COffAdd pl) = place_text pl @ '' += *p;''"
| "stmt_text (COffSub pl) = place_text pl @ '' -= *p;''"
| "stmt_text (COffMul pl k) = place_text pl @ '' += *p * '' @ show_int k @ '';''"
| "stmt_text CForever = ''for (;;);''"
| "stmt_text CDebugBreak = ''debugbreak();''"

text \<open>The statements each hook of \<^verbatim>\<open>GeneratorC\<close> prints, by the case distinctions of the hook.\<close>

definition c_place :: "int \<Rightarrow> cplace" where
  "c_place op1 = (if op1 > 0 then PlusOff op1 else MinusOff (- op1))"

fun expand :: "ir \<Rightarrow> cstmt list" where
  "expand (MovePtr op1) =
     (if op1 > 0 then (if op1 = 1 then [CPtrInc] else [CPtrAdd op1])
      else (if op1 = - 1 then [CPtrDec] else [CPtrSub (- op1)]))"
| "expand (Add op1) =
     (if op1 > 0 then (if op1 = 1 then [CCellInc] else [CCellAdd op1])
      else (if op1 = - 1 then [CCellDec] else [CCellSub (- op1)]))"
| "expand (Assign op1) = [CAssign op1]"
| "expand Putchar = [CPutchar]"
| "expand Getchar = [CGetchar]"
| "expand LoopStart = [CWhile]"
| "expand LoopEnd = [CClose]"
| "expand IfStart = [CIf]"
| "expand IfEnd = [CClose]"
| "expand (SearchZero op1) =
     (if op1 > 0 then (if op1 = 1 then [CMemchr] else [CScanAdd op1])
      else (if op1 = - 1 then [CScanDec] else [CScanSub (- op1)]))"
| "expand (AddVar op1) = [COffAdd (c_place op1)]"
| "expand (SubVar op1) = [COffSub (c_place op1)]"
| "expand (AddMulVar op1 op2) = [COffMul (c_place op1) op2]"
| "expand InfLoop = [CIf, CForever, CClose]"
| "expand BreakPoint = [CDebugBreak]"

definition c_lines :: "ir list \<Rightarrow> cstmt list" where
  "c_lines prog = concat (map expand prog)"

text \<open>A line of the program text: indentation, the statement, a newline.\<close>

definition c_line_text :: "string \<Rightarrow> nat \<Rightarrow> cstmt \<Rightarrow> string" where
  "c_line_text ind k st = concat (replicate k ind) @ stmt_text st @ nl"

subsection \<open>The meaning of the statements\<close>

text \<open>
  The meaning in ISO C of the statements, in the program the header and footer put them
  in: \<^verbatim>\<open>memory\<close> is an array of \<^verbatim>\<open>MEMORY_SIZE\<close> = 65536 \<^verbatim>\<open>unsigned char\<close>, zeroed, and \<^verbatim>\<open>p\<close> points
  into it, to its first element at the start. A pointer may point to an element or one
  past the last; only a pointer to an element may be dereferenced; anything else is
  undefined behaviour (\<open>Failed\<close>). Arithmetic on \<^verbatim>\<open>*p\<close> is done in \<^verbatim>\<open>int\<close>, of 32 bits, and converted
  back to \<^verbatim>\<open>unsigned char\<close>, that is reduced modulo 256. \<^verbatim>\<open>getchar()\<close> returns the next byte as an
  \<^verbatim>\<open>unsigned char\<close> converted to \<^verbatim>\<open>int\<close>, or \<^verbatim>\<open>EOF\<close>, which is -1, at the end of input.
  \<^verbatim>\<open>memchr(p, 0, n)\<close> reads from \<^verbatim>\<open>p\<close> on, up to the first zero byte. At the closing brace of a
  \<^verbatim>\<open>while\<close> the condition is evaluated again: the body is entered again when it holds. The
  footer ends the program with \<^verbatim>\<open>putchar('\n'); return EXIT_SUCCESS;\<close>.
\<close>

definition MEMORY_SIZE :: nat where
  "MEMORY_SIZE = 65536"

definition EOF :: int where
  "EOF = - 1"

definition c_deref_ok :: "int \<Rightarrow> bool" where
  "c_deref_ok p = (0 \<le> p \<and> p < int MEMORY_SIZE)"

definition c_ptr_ok :: "int \<Rightarrow> bool" where
  "c_ptr_ok p = (0 \<le> p \<and> p \<le> int MEMORY_SIZE)"

definition c_int_ok :: "int \<Rightarrow> bool" where
  "c_int_ok v = (- (2 ^ 31) \<le> v \<and> v < 2 ^ 31)"

fun c_class :: "cstmt \<Rightarrow> bclass" where
  "c_class CWhile = BOpen"
| "c_class CIf = BOpen"
| "c_class CClose = BClose"
| "c_class _ = BPlain"

fun place_addr :: "cplace \<Rightarrow> int \<Rightarrow> int" where
  "place_addr (PlusOff n) p = p + n"
| "place_addr (MinusOff n) p = p - n"

definition c_getchar :: "u8 list \<Rightarrow> int \<times> u8 list" where
  "c_getchar stdin = (case stdin of [] \<Rightarrow> (EOF, []) | b # bs \<Rightarrow> (uint b, bs))"

definition c_move :: "int \<Rightarrow> cstmt mstate \<Rightarrow> cstmt result" where
  "c_move d s =
     (if c_ptr_ok (ptr s + d) then Running (advance (s\<lparr>ptr := ptr s + d\<rparr>)) else Failed)"

text \<open>
  An assignment to the cell at address \<open>a\<close> of a value computed in \<^verbatim>\<open>int\<close> from that cell; \<open>vs\<close>
  are the values computed on the way. A value outside the range of \<^verbatim>\<open>int\<close> is an overflow, which
  is undefined behaviour.
\<close>

definition c_assign :: "int \<Rightarrow> int list \<Rightarrow> (int \<Rightarrow> int) \<Rightarrow> cstmt mstate \<Rightarrow> cstmt result" where
  "c_assign a vs f s =
     (if c_deref_ok (ptr s) \<and> c_ptr_ok a \<and> c_deref_ok a
         \<and> list_all c_int_ok vs \<and> c_int_ok (f (uint (tape s a)))
      then Running (advance (store a (word_of_int (f (uint (tape s a)))) s))
      else Failed)"

definition c_jump_fwd :: "cstmt mstate \<Rightarrow> cstmt result" where
  "c_jump_fwd s =
     (case skip_fwd c_class 0 (hd (after s) # before s) (tl (after s)) of
        None \<Rightarrow> Failed
      | Some (bs, xs) \<Rightarrow> Running (s\<lparr>before := bs, after := xs\<rparr>))"

text \<open>\<^verbatim>\<open>for (; *p; p += d);\<close> for a stride other than 0.\<close>

function c_for_scan :: "(int \<Rightarrow> u8) \<Rightarrow> int \<Rightarrow> int \<Rightarrow> int option" where
  "c_for_scan t p d =
     (if d = 0 \<or> \<not> c_deref_ok p then None
      else if t p = 0 then Some p
      else if c_ptr_ok (p + d) then c_for_scan t (p + d) d else None)"
  by pat_completeness auto
termination
  by (relation "measure (\<lambda>(t, p, d). if 0 < d then nat (int MEMORY_SIZE - p) else nat (p + 1))")
     (auto simp: c_deref_ok_def)

declare c_for_scan.simps [simp del]

definition c_scan :: "int \<Rightarrow> cstmt mstate \<Rightarrow> cstmt result" where
  "c_scan d s =
     (if \<not> c_deref_ok (ptr s) then Failed
      else if tape s (ptr s) = 0 then Running (advance s)
      else if d = 0 then Running s
      else (case c_for_scan (tape s) (ptr s) d of
              None \<Rightarrow> Failed
            | Some p \<Rightarrow> Running (advance (s\<lparr>ptr := p\<rparr>))))"

definition c_memchr :: "cstmt mstate \<Rightarrow> cstmt result" where
  "c_memchr s =
     (if \<not> c_deref_ok (ptr s) then Failed
      else (case find (\<lambda>i. tape s i = 0) [ptr s..int MEMORY_SIZE - 1] of
              None \<Rightarrow> Failed
            | Some p \<Rightarrow> Running (advance (s\<lparr>ptr := p\<rparr>))))"

definition c_step :: "cstmt mstate \<Rightarrow> cstmt result" where
  "c_step s =
     (case after s of
        [] \<Rightarrow> Finished (outp s @ [10])
      | x # rest \<Rightarrow>
          (case x of
             CPtrInc \<Rightarrow> c_move 1 s
           | CPtrAdd n \<Rightarrow> c_move n s
           | CPtrDec \<Rightarrow> c_move (- 1) s
           | CPtrSub n \<Rightarrow> c_move (- n) s
           | CCellInc \<Rightarrow> c_assign (ptr s) [] (\<lambda>c. c + 1) s
           | CCellAdd n \<Rightarrow> c_assign (ptr s) [] (\<lambda>c. c + n) s
           | CCellDec \<Rightarrow> c_assign (ptr s) [] (\<lambda>c. c - 1) s
           | CCellSub n \<Rightarrow> c_assign (ptr s) [] (\<lambda>c. c - n) s
           | CPutchar \<Rightarrow>
               (if c_deref_ok (ptr s)
                then Running (advance (s\<lparr>outp := outp s @ [tape s (ptr s)]\<rparr>))
                else Failed)
           | CGetchar \<Rightarrow>
               (case c_getchar (inp s) of
                  (c, stdin) \<Rightarrow> c_assign (ptr s) [] (\<lambda>_. c) (s\<lparr>inp := stdin\<rparr>))
           | CWhile \<Rightarrow>
               (if \<not> c_deref_ok (ptr s) then Failed
                else if tape s (ptr s) = 0 then c_jump_fwd s else Running (advance s))
           | CIf \<Rightarrow>
               (if \<not> c_deref_ok (ptr s) then Failed
                else if tape s (ptr s) = 0 then c_jump_fwd s else Running (advance s))
           | CClose \<Rightarrow>
               (case skip_bwd c_class 0 (before s) (after s) of
                  None \<Rightarrow> Failed
                | Some (opener, bs, xs) \<Rightarrow>
                    (if opener = CWhile
                     then (if \<not> c_deref_ok (ptr s) then Failed
                           else if tape s (ptr s) \<noteq> 0 then Running (s\<lparr>before := bs, after := xs\<rparr>)
                           else Running (advance s))
                     else Running (advance s)))
           | CAssign n \<Rightarrow> c_assign (ptr s) [] (\<lambda>_. n) s
           | CMemchr \<Rightarrow> c_memchr s
           | CScanAdd n \<Rightarrow> c_scan n s
           | CScanDec \<Rightarrow> c_scan (- 1) s
           | CScanSub n \<Rightarrow> c_scan (- n) s
           | COffAdd pl \<Rightarrow>
               c_assign (place_addr pl (ptr s)) [] (\<lambda>c. c + uint (tape s (ptr s))) s
           | COffSub pl \<Rightarrow>
               c_assign (place_addr pl (ptr s)) [] (\<lambda>c. c - uint (tape s (ptr s))) s
           | COffMul pl k \<Rightarrow>
               c_assign (place_addr pl (ptr s)) [uint (tape s (ptr s)) * k]
                 (\<lambda>c. c + uint (tape s (ptr s)) * k) s
           | CForever \<Rightarrow> Running s
           | CDebugBreak \<Rightarrow> Trapped (outp s)))"

definition run_c :: "nat \<Rightarrow> ir list \<Rightarrow> u8 list \<Rightarrow> cstmt result" where
  "run_c n prog stdin = run c_step n (start (c_lines prog) stdin)"

text \<open>
  Operands small enough for the arithmetic of the statements to stay inside \<^verbatim>\<open>int\<close>, and for
  the hooks to negate them.
\<close>

definition operand_ok :: "int \<Rightarrow> bool" where
  "operand_ok v = (- (2 ^ 22) < v \<and> v < 2 ^ 22)"

fun operands_ok :: "ir \<Rightarrow> bool" where
  "operands_ok (MovePtr d) = operand_ok d"
| "operands_ok (Add v) = operand_ok v"
| "operands_ok (Assign v) = operand_ok v"
| "operands_ok (SearchZero d) = operand_ok d"
| "operands_ok (AddVar off) = operand_ok off"
| "operands_ok (SubVar off) = operand_ok off"
| "operands_ok (AddMulVar off k) = (operand_ok off \<and> operand_ok k)"
| "operands_ok _ = True"

text \<open>The interpreter with a \<open>Getchar\<close> that stores 255 at the end of input.\<close>

definition eof_255 :: "u8 \<Rightarrow> u8 option" where
  "eof_255 cell = Some 255"

subsection \<open>States of the C program that stand for a state of the interpreter\<close>

definition c_lines_rev :: "ir list \<Rightarrow> cstmt list" where
  "c_lines_rev bs = concat (map (\<lambda>x. rev (expand x)) bs)"

text \<open>The C program at the first statement of the current IR operation.\<close>

definition c_of :: "ir mstate \<Rightarrow> cstmt mstate" where
  "c_of s =
     \<lparr>before = c_lines_rev (before s), after = c_lines (after s),
      ptr = ptr s, tape = tape s, inp = inp s, outp = outp s\<rparr>"

text \<open>The C program inside the statements of an \<open>InfLoop\<close>, at \<^verbatim>\<open>for (;;);\<close>.\<close>

definition c_in :: "ir mstate \<Rightarrow> cstmt mstate" where
  "c_in s =
     \<lparr>before = CIf # c_lines_rev (before s),
      after = CForever # CClose # c_lines (tl (after s)),
      ptr = ptr s, tape = tape s, inp = inp s, outp = outp s\<rparr>"

fun c_result :: "ir result \<Rightarrow> cstmt result" where
  "c_result (Running s) = Running (c_of s)"
| "c_result (Finished printed) = Finished printed"
| "c_result (Trapped printed) = Trapped printed"
| "c_result Failed = Failed"

text \<open>The interpreter is at an \<open>InfLoop\<close> on a cell that is not zero.\<close>

definition spinning :: "nat \<Rightarrow> ir mstate \<Rightarrow> bool" where
  "spinning heap_size s =
     (after s \<noteq> [] \<and> hd (after s) = InfLoop \<and> in_bounds heap_size (ptr s) \<and> tape s (ptr s) \<noteq> 0)"

text \<open>Lines of program text: the statements, each after \<open>k\<close> units of indentation.\<close>

definition c_text :: "string \<Rightarrow> nat list \<Rightarrow> cstmt list \<Rightarrow> string" where
  "c_text ind ks sts = concat (map2 (c_line_text ind) ks sts)"

text \<open>The indentation of the lines a hook prints at level \<open>l\<close>, in units.\<close>

definition pads :: "int \<Rightarrow> ir \<Rightarrow> nat list" where
  "pads l x =
     (case x of
        LoopEnd \<Rightarrow> [nat (l - 1)]
      | IfEnd \<Rightarrow> [nat (l - 1)]
      | InfLoop \<Rightarrow> [nat l, Suc (nat l), nat l]
      | _ \<Rightarrow> [nat l])"

text \<open>The whole program text: the header, the lines of the statements, the footer.\<close>

definition c_program :: "string \<Rightarrow> nat list \<Rightarrow> cstmt list \<Rightarrow> string" where
  "c_program ind ks sts =
     oStream (emitFooterImpl (put (c_text ind ks sts) (emitHeaderImpl (GeneratorC ind))))"


section \<open>Running the code of the x86 ELF backend\<close>

text \<open>
  The part of the IA-32 machine the code of \<^verbatim>\<open>emitInfLoopImpl\<close> uses: the instruction pointer
  (as an offset into the file), the zero flag, the register \<^verbatim>\<open>ecx\<close>, which holds the address of
  the current cell, and the memory. Three instructions: \<^verbatim>\<open>80 39 ib\<close>, \<^verbatim>\<open>cmp byte ptr [ecx], ib\<close>,
  sets the zero flag when the byte at \<^verbatim>\<open>ecx\<close> equals the immediate; \<^verbatim>\<open>0F 84 cd\<close>, \<^verbatim>\<open>je rel32\<close>, jumps
  when the zero flag is set; \<^verbatim>\<open>EB cb\<close>, \<^verbatim>\<open>jmp rel8\<close>, jumps. Displacements count from the end of
  the instruction. Any other byte stops the machine.
\<close>

record x86 =
  eip :: nat
  zf :: bool
  ecx :: "32 word"
  mem :: "32 word \<Rightarrow> u8"

definition goto :: "int \<Rightarrow> x86 \<Rightarrow> x86 option" where
  "goto t m = (if t < 0 then None else Some (m\<lparr>eip := nat t\<rparr>))"

definition x86_step :: "u8 list \<Rightarrow> x86 \<Rightarrow> x86 option" where
  "x86_step code m =
     (case drop (eip m) code of
        [] \<Rightarrow> None
      | opc # rest \<Rightarrow>
          (if opc = 0x80 then
             (case rest of
                modrm # imm # _ \<Rightarrow>
                  (if modrm = 0x39
                   then Some (m\<lparr>eip := eip m + 3, zf := (mem m (ecx m) = imm)\<rparr>)
                   else None)
              | _ \<Rightarrow> None)
           else if opc = 0x0f then
             (case je_target code (eip m) of
                None \<Rightarrow> None
              | Some t \<Rightarrow> (if zf m then goto t m else Some (m\<lparr>eip := eip m + 6\<rparr>)))
           else if opc = 0xeb then
             (case jmp_target code (eip m) of
                None \<Rightarrow> None
              | Some t \<Rightarrow> goto t m)
           else None))"

fun x86_run :: "u8 list \<Rightarrow> nat \<Rightarrow> x86 \<Rightarrow> x86 option" where
  "x86_run code 0 m = Some m"
| "x86_run code (Suc n) m =
     (case x86_step code m of None \<Rightarrow> None | Some m' \<Rightarrow> x86_run code n m')"

text \<open>A machine at the start of the code, every byte of its memory \<open>v\<close>.\<close>

definition x86_start :: "u8 \<Rightarrow> x86" where
  "x86_start v = \<lparr>eip = 0, zf = False, ecx = 0, mem = (\<lambda>a. v)\<rparr>"

text \<open>
  The code of \<^verbatim>\<open>emitInfLoopImpl\<close>: \<^verbatim>\<open>cmp byte ptr [ecx], 0\<close>; \<^verbatim>\<open>je\<close> with the displacement 2 the
  \<open>IfEnd\<close> hook patches in; \<^verbatim>\<open>jmp\<close> with the displacement -2.
\<close>

definition infloop_code :: "u8 list" where
  "infloop_code = [0x80, 0x39, 0x00, 0x0f, 0x84, 0x02, 0x00, 0x00, 0x00, 0xeb, 0xfe]"

subsection \<open>Facts about \<open>find_last_of\<close>\<close>

lemma find_last_of_None: "find_last_of s c = None \<longleftrightarrow> c \<notin> set s"
  by (induction s) (auto split: option.splits)

lemma find_last_of_Some:
  "find_last_of s c = Some i \<Longrightarrow>
     i < length s \<and> s ! i = c \<and> c \<notin> set (drop (Suc i) s)"
proof (induction s arbitrary: i)
  case Nil
  then show ?case by simp
next
  case (Cons x xs)
  show ?case
  proof (cases "find_last_of xs c")
    case None
    with Cons.prems have "x = c" "i = 0" by (auto split: if_splits)
    moreover from None have "c \<notin> set xs" by (simp add: find_last_of_None)
    ultimately show ?thesis by simp
  next
    case (Some j)
    with Cons.prems have "i = Suc j" by simp
    with Cons.IH [OF Some] show ?thesis by simp
  qed
qed

lemma rev_split_at_last:
  assumes "i < length s" "s ! i = c" "c \<notin> set (drop (Suc i) s)"
  shows "rev s = rev (drop (Suc i) s) @ c # rev (take i s)"
proof -
  have "s = take i s @ c # drop (Suc i) s"
    by (metis assms(1,2) id_take_nth_drop)
  then have "rev s = rev (take i s @ c # drop (Suc i) s)" by simp
  then show ?thesis by simp
qed

lemma takeWhile_rev_last:
  assumes "i < length s" "s ! i = c" "c \<notin> set (drop (Suc i) s)"
  shows "takeWhile (\<lambda>x. x \<noteq> c) (rev s) = rev (drop (Suc i) s)"
proof -
  have "\<forall>x \<in> set (drop (Suc i) s). x \<noteq> c" using assms(3) by blast
  then have "takeWhile (\<lambda>x. x \<noteq> c) (rev (drop (Suc i) s)) = rev (drop (Suc i) s)"
    by (simp only: takeWhile_eq_all_conv set_rev)
  then show ?thesis
    by (simp add: rev_split_at_last [OF assms] takeWhile_tail)
qed

lemma dropWhile_rev_last:
  assumes "i < length s" "s ! i = c" "c \<notin> set (drop (Suc i) s)"
  shows "dropWhile (\<lambda>x. x \<noteq> c) (rev s) = c # rev (take i s)"
proof -
  have "\<forall>x \<in> set (drop (Suc i) s). x \<noteq> c" using assms(3) by blast
  then have "dropWhile (\<lambda>x. x \<noteq> c) (rev (drop (Suc i) s)) = []"
    by (simp only: dropWhile_eq_Nil_conv set_rev)
  then show ?thesis
    by (simp add: rev_split_at_last [OF assms] dropWhile_append3)
qed

lemma removeDirectoryPart_spec: "removeDirectoryPart path = spec_basename path"
proof (cases "find_last_of path CHR ''/''")
  case None
  then have "CHR ''/'' \<notin> set path" by (simp add: find_last_of_None)
  then have "\<forall>x \<in> set path. x \<noteq> CHR ''/''" by blast
  then have tw: "takeWhile (\<lambda>c. c \<noteq> CHR ''/'') (rev path) = rev path"
    by (simp only: takeWhile_eq_all_conv set_rev)
  show ?thesis
    by (simp only: removeDirectoryPart_def spec_basename_def None option.case tw rev_rev_ident)
next
  case (Some i)
  from find_last_of_Some [OF Some] takeWhile_rev_last [of i path "CHR ''/''"] Some
  show ?thesis by (simp add: removeDirectoryPart_def spec_basename_def)
qed

lemma getSuffix_spec: "getSuffix t = spec_suffix t"
  by (cases t) simp_all

lemma getSuffix_dot: "\<exists>r. getSuffix t = CHR ''.'' # r"
  by (cases t) simp_all

lemma removeDirectoryPart_subset: "set (removeDirectoryPart path) \<subseteq> set path"
  by (auto simp: removeDirectoryPart_def split: option.splits dest: in_set_dropD)

section \<open>Claims about the default output name\<close>

text \<open>
  C10. For every input filename that contains no dot, the default output name is the
  basename, a literal dot appended by \<^verbatim>\<open>removeSuffix\<close>, and then the target suffix, which
  itself begins with a dot: the name contains a doubled dot.
\<close>

theorem C10_no_dot_doubles_dot:
  assumes "CHR ''.'' \<notin> set inputFile"
  shows "getDefaultOutputName inputFile t
           = removeDirectoryPart inputFile @ ''.'' @ getSuffix t
         \<and> has_doubled_dot (getDefaultOutputName inputFile t)"
proof -
  let ?b = "removeDirectoryPart inputFile"
  from assms removeDirectoryPart_subset have "CHR ''.'' \<notin> set ?b" by blast
  then have rs: "removeSuffix ?b = ?b @ ''.''"
    by (simp add: removeSuffix_def find_last_of_None [symmetric])
  then have eq: "getDefaultOutputName inputFile t = ?b @ ''.'' @ getSuffix t"
    by (simp add: getDefaultOutputName_def)
  obtain r where r: "getSuffix t = CHR ''.'' # r" using getSuffix_dot by blast
  have "has_doubled_dot (?b @ CHR ''.'' # CHR ''.'' # r)"
    unfolding has_doubled_dot_def
    by (rule exI [of _ "length ?b"]) (simp add: nth_append)
  with eq r show ?thesis by simp
qed

theorem C10_prog_elfx64_witness:
  "CHR ''.'' \<notin> set ''prog''
   \<and> getDefaultOutputName ''prog'' kElfX64 = ''prog..out''
   \<and> has_doubled_dot (getDefaultOutputName ''prog'' kElfX64)"
proof -
  have h: "CHR ''.'' \<notin> set ''prog''" by simp
  have b: "removeDirectoryPart ''prog'' = ''prog''" by (simp add: removeDirectoryPart_def)
  note inst = C10_no_dot_doubles_dot [OF h, of kElfX64]
  from inst have e: "getDefaultOutputName ''prog'' kElfX64 = ''prog..out''" by (simp add: b)
  from inst have d: "has_doubled_dot (getDefaultOutputName ''prog'' kElfX64)" by blast
  from h e d show ?thesis by blast
qed

lemma spec_strip_extension_no_dot:
  "CHR ''.'' \<notin> set name \<Longrightarrow> spec_strip_extension name = name"
  by (simp add: spec_strip_extension_def)

text \<open>
  C5. The default output name is the one the specification describes, the basename with
  directory part and trailing extension removed followed by the suffix of the target,
  exactly for the input paths whose basename contains a dot. For a basename without a dot,
  whatever the directory part, \<^verbatim>\<open>removeSuffix\<close> appends a dot and \<^verbatim>\<open>getSuffix\<close> supplies the dot
  of the suffix again: the name chosen differs from the described one by that dot.
\<close>

theorem C5_default_output_name:
  "(CHR ''.'' \<in> set (removeDirectoryPart inputFile) \<longrightarrow>
      getDefaultOutputName inputFile t = spec_output_name inputFile t)
   \<and> (CHR ''.'' \<notin> set (removeDirectoryPart inputFile) \<longrightarrow>
        getDefaultOutputName inputFile t = removeDirectoryPart inputFile @ ''.'' @ getSuffix t
      \<and> spec_output_name inputFile t = removeDirectoryPart inputFile @ getSuffix t
      \<and> getDefaultOutputName inputFile t \<noteq> spec_output_name inputFile t)"
proof -
  let ?b = "removeDirectoryPart inputFile"
  have with_dot: "getDefaultOutputName inputFile t = spec_output_name inputFile t"
    if d: "CHR ''.'' \<in> set ?b"
  proof -
    from d obtain i where i: "find_last_of ?b CHR ''.'' = Some i"
      by (cases "find_last_of ?b CHR ''.''") (auto simp: find_last_of_None)
    from find_last_of_Some [OF i] dropWhile_rev_last [of i ?b "CHR ''.''"]
    have "rev (tl (dropWhile (\<lambda>c. c \<noteq> CHR ''.'') (rev ?b))) = take i ?b" by simp
    with d i show ?thesis
      by (simp add: getDefaultOutputName_def removeSuffix_def spec_output_name_def
          spec_strip_extension_def removeDirectoryPart_spec [symmetric] getSuffix_spec)
  qed
  have without_dot:
    "getDefaultOutputName inputFile t = ?b @ ''.'' @ getSuffix t
     \<and> spec_output_name inputFile t = ?b @ getSuffix t
     \<and> getDefaultOutputName inputFile t \<noteq> spec_output_name inputFile t"
    if d: "CHR ''.'' \<notin> set ?b"
  proof -
    from d have "removeSuffix ?b = ?b @ ''.''"
      by (simp add: removeSuffix_def find_last_of_None [symmetric])
    then have c: "getDefaultOutputName inputFile t = ?b @ ''.'' @ getSuffix t"
      by (simp add: getDefaultOutputName_def)
    from d have s: "spec_output_name inputFile t = ?b @ getSuffix t"
      by (simp add: spec_output_name_def removeDirectoryPart_spec [symmetric]
          spec_strip_extension_no_dot getSuffix_spec)
    have "?b @ ''.'' @ getSuffix t \<noteq> ?b @ getSuffix t" by simp
    with c s show ?thesis by simp
  qed
  from with_dot without_dot show ?thesis by blast
qed

theorem C5_prog_witness:
  "CHR ''.'' \<in> set (removeDirectoryPart ''src/hello.b'')
   \<and> getDefaultOutputName ''src/hello.b'' kC = ''hello.c''
   \<and> spec_output_name ''src/hello.b'' kC = ''hello.c''
   \<and> CHR ''.'' \<notin> set (removeDirectoryPart ''prog'')
   \<and> getDefaultOutputName ''prog'' kElfX64 = ''prog..out''
   \<and> spec_output_name ''prog'' kElfX64 = ''prog.out''
   \<and> CHR ''.'' \<notin> set (removeDirectoryPart ''./prog'')
   \<and> getDefaultOutputName ''./prog'' kC = ''prog..c''
   \<and> spec_output_name ''./prog'' kC = ''prog.c''"
proof -
  have b: "removeDirectoryPart ''src/hello.b'' = ''hello.b''"
      "removeDirectoryPart ''prog'' = ''prog''" "removeDirectoryPart ''./prog'' = ''prog''"
    by (simp_all add: removeDirectoryPart_def)
  have h1: "CHR ''.'' \<in> set (removeDirectoryPart ''src/hello.b'')"
    and h2: "CHR ''.'' \<notin> set (removeDirectoryPart ''prog'')"
    and h3: "CHR ''.'' \<notin> set (removeDirectoryPart ''./prog'')"
    by (simp_all add: b)
  have s1: "spec_output_name ''src/hello.b'' kC = ''hello.c''"
    by (simp add: spec_output_name_def spec_strip_extension_def spec_basename_def)
  from C5_default_output_name [of "''src/hello.b''" kC] h1 s1
  have a1: "getDefaultOutputName ''src/hello.b'' kC = ''hello.c''" by simp
  from C5_default_output_name [of "''prog''" kElfX64] h2
  have a2: "getDefaultOutputName ''prog'' kElfX64 = ''prog..out''"
      "spec_output_name ''prog'' kElfX64 = ''prog.out''"
    by (simp_all add: b)
  from C5_default_output_name [of "''./prog''" kC] h3
  have a3: "getDefaultOutputName ''./prog'' kC = ''prog..c''"
      "spec_output_name ''./prog'' kC = ''prog.c''"
    by (simp_all add: b)
  from h1 a1 s1 h2 a2 h3 a3 show ?thesis by blast
qed

section \<open>Indentation of the C textual backend\<close>

lemma indentLevel_put [simp]: "indentLevel (put str g) = indentLevel g"
  by (simp add: put_def)

lemma indentLevel_emitIndent [simp]: "indentLevel (emitIndent g) = indentLevel g"
  by (simp add: emitIndent_def)

lemma indentLevel_put_offset [simp]: "indentLevel (put_offset off g) = indentLevel g"
  by (simp add: put_offset_def)

lemma indentLevel_incIndent [simp]: "indentLevel (incIndent g) = indentLevel g + 1"
  by (simp add: incIndent_def)

lemma indentLevel_decIndent [simp]: "indentLevel (decIndent g) = indentLevel g - 1"
  by (simp add: decIndent_def)

lemma indentLevel_open:
  "indentLevel (emitLoopStartImpl g) = indentLevel g + 1"
  "indentLevel (emitIfImpl g) = indentLevel g + 1"
  by (simp_all add: emitLoopStartImpl_def emitIfImpl_def)

lemma indentLevel_close:
  "indentLevel (emitLoopEndImpl g) = indentLevel g - 1"
  "indentLevel (emitEndIfImpl g) = indentLevel g - 1"
  by (simp_all add: emitLoopEndImpl_def emitEndIfImpl_def)

lemma indentLevel_header: "indentLevel (emitHeaderImpl (GeneratorC ind)) = 1"
  by (simp add: emitHeaderImpl_def GeneratorC_def)

lemma indentLevel_footer: "indentLevel (emitFooterImpl g) = indentLevel g"
  by (simp add: emitFooterImpl_def)

lemma indentLevel_emitOp: "indentLevel (emitOp x g) = indentLevel g + level_delta x"
  by (cases x)
    (simp_all add: indentLevel_open indentLevel_close emitMovePointerImpl_def emitAddImpl_def
      emitAssignImpl_def emitPutcharImpl_def emitGetcharImpl_def emitSearchZeroImpl_def
      emitAddVarImpl_def emitSubVarImpl_def emitAddCMulVarImpl_def emitInfLoopImpl_def
      emitBreakPointImpl_def Let_def)

lemma paired_level:
  "paired st prog \<Longrightarrow>
     indentLevel (emitOps prog g) = indentLevel g - int (length st)
     \<and> (\<forall>k \<le> length prog.
          indentLevel g - int (length st) \<le> indentLevel (emitOps (take k prog) g))"
proof (induction prog arbitrary: st g)
  case Nil
  then show ?case by simp
next
  case (Cons x xs)
  obtain st' where step: "paired st' xs" "int (length st') = int (length st) + level_delta x"
    using Cons.prems
    by (cases x; cases st; auto split: bracket.splits list.splits)
  note ih = Cons.IH [OF step(1), of "emitOp x g"]
  have final: "indentLevel (emitOps (x # xs) g) = indentLevel g - int (length st)"
    using ih step(2) by (simp add: indentLevel_emitOp)
  have inner: "indentLevel g - int (length st) \<le> indentLevel (emitOps (take k (x # xs)) g)"
    if "k \<le> length (x # xs)" for k
  proof (cases k)
    case 0
    then show ?thesis by simp
  next
    case (Suc j)
    with that have "j \<le> length xs" by simp
    with ih have "indentLevel (emitOp x g) - int (length st') \<le>
        indentLevel (emitOps (take j xs) (emitOp x g))" by blast
    with step(2) Suc show ?thesis by (simp add: indentLevel_emitOp)
  qed
  from final inner show ?case by blast
qed

text \<open>
  C9. In the C textual backend the \<open>LoopStart\<close> and \<open>IfStart\<close> hooks raise the indentation
  level by exactly 1 and the \<open>LoopEnd\<close> and \<open>IfEnd\<close> hooks lower it by exactly 1; for every IR
  program with valid bracket pairing the level after the whole traversal, footer included,
  is the level the header set, 1, and after no prefix of the traversal is it below 1.
\<close>

theorem C9_indentation_balanced:
  "indentLevel (emitLoopStartImpl g) = indentLevel g + 1
   \<and> indentLevel (emitIfImpl g) = indentLevel g + 1
   \<and> indentLevel (emitLoopEndImpl g) = indentLevel g - 1
   \<and> indentLevel (emitEndIfImpl g) = indentLevel g - 1
   \<and> indentLevel (emitHeaderImpl (GeneratorC ind)) = 1
   \<and> (well_paired prog \<longrightarrow>
        indentLevel (generateC ind prog) = 1
        \<and> (\<forall>k \<le> length prog. 1 \<le> level_after ind prog k))"
proof -
  have "indentLevel (generateC ind prog) = 1
        \<and> (\<forall>k \<le> length prog. 1 \<le> level_after ind prog k)" if "well_paired prog"
  proof -
    from that have "paired [] prog" by (simp add: well_paired_def)
    from paired_level [OF this, of "emitHeaderImpl (GeneratorC ind)"]
    show ?thesis
      by (simp add: generateC_def level_after_def indentLevel_footer indentLevel_header)
  qed
  then show ?thesis
    by (simp add: indentLevel_open indentLevel_close indentLevel_header)
qed

theorem C9_nested_loop_witness:
  "well_paired [LoopStart, Add 1, IfStart, Putchar, IfEnd, LoopEnd]
   \<and> indentLevel (generateC ''  '' [LoopStart, Add 1, IfStart, Putchar, IfEnd, LoopEnd]) = 1
   \<and> map (level_after ''  '' [LoopStart, Add 1, IfStart, Putchar, IfEnd, LoopEnd])
         [0, 1, 2, 3, 4, 5, 6] = [1, 2, 2, 3, 3, 2, 1]"
proof -
  let ?p = "[LoopStart, Add 1, IfStart, Putchar, IfEnd, LoopEnd]"
  have wp: "well_paired ?p" by (simp add: well_paired_def)
  have lv: "map (level_after ''  '' ?p) [0, 1, 2, 3, 4, 5, 6] = [1, 2, 2, 3, 3, 2, 1]"
    by (simp add: level_after_def indentLevel_open indentLevel_close indentLevel_header
        emitAddImpl_def emitPutcharImpl_def)
  from C9_indentation_balanced [of _ "''  ''" ?p] wp have "indentLevel (generateC ''  '' ?p) = 1"
    by blast
  with wp lv show ?thesis by blast
qed

section \<open>Facts about the x86 ELF backend\<close>

lemma length_le_bytes [simp]: "length (le_bytes n v) = n"
  by (induction n arbitrary: v) simp_all

lemma le_val_le_bytes: "le_val (le_bytes n v) = v mod 256 ^ n"
proof (induction n arbitrary: v)
  case 0
  then show ?case by simp
next
  case (Suc n)
  have "uint (word_of_int v :: u8) = v mod 256" by (simp add: uint_word_of_int)
  moreover have "v mod (256 * 256 ^ n) = 256 * ((v div 256) mod 256 ^ n) + v mod 256"
    by (rule zmod_zmult2_eq) simp
  ultimately show ?case using Suc by simp
qed

lemma le_signed_le_bytes:
  assumes "0 < n" "- (2 ^ (8 * n - 1)) \<le> v" "v < 2 ^ (8 * n - 1)"
  shows "le_signed (le_bytes n v) = v"
proof -
  define h :: int where "h = 2 ^ (8 * n - 1)"
  have p: "(256::int) ^ n = 2 * h"
  proof -
    have "(256::int) ^ n = 2 ^ (8 * n)" by (simp add: power_mult)
    also have "8 * n = Suc (8 * n - 1)" using assms(1) by simp
    finally show ?thesis by (simp add: h_def)
  qed
  have hpos: "0 < h" by (simp add: h_def)
  have v: "- h \<le> v" "v < h" using assms(2,3) by (simp_all add: h_def)
  have val: "le_val (le_bytes n v) = v mod (2 * h)" by (simp add: le_val_le_bytes p)
  have q: "(2::int) ^ (8 * n) = 2 * h" using p by (simp add: power_mult)
  have sg: "le_signed (le_bytes n v) =
      (if v mod (2 * h) < h then v mod (2 * h) else v mod (2 * h) - 2 * h)"
    unfolding le_signed_def length_le_bytes val q h_def [symmetric] by (rule refl)
  show ?thesis
  proof (cases "0 \<le> v")
    case True
    then have "v mod (2 * h) = v" using v by simp
    then show ?thesis using v sg by simp
  next
    case False
    then have a: "0 \<le> v + 2 * h" "v + 2 * h < 2 * h" using v by simp_all
    have "(v + 2 * h) mod (2 * h) = v + 2 * h" using a by (rule mod_pos_pos_trivial)
    moreover have "(v + 2 * h) mod (2 * h) = v mod (2 * h)" by (rule mod_add_self2)
    ultimately have "v mod (2 * h) = v + 2 * h" by simp
    then show ?thesis using False sg v hpos by simp
  qed
qed


lemma le_bytes_1: "le_bytes 1 v = [word_of_int v]"
  by (simp add: eval_nat_numeral)

lemma le_bytes_4:
  "le_bytes 4 v = [word_of_int v, word_of_int (v div 256), word_of_int (v div 256 div 256),
     word_of_int (v div 256 div 256 div 256)]"
  by (simp add: eval_nat_numeral)

lemma write_at_end:
  "at_end g \<Longrightarrow>
     write_bytes bs g = g\<lparr>sink := sink g @ bs, tellp := length (sink g) + length bs\<rparr>"
  by (simp add: at_end_def write_bytes_def)

lemma at_end_write [simp]: "at_end g \<Longrightarrow> at_end (write_bytes bs g)"
  by (simp add: at_end_def write_bytes_def)

lemma sink_write [simp]: "at_end g \<Longrightarrow> sink (write_bytes bs g) = sink g @ bs"
  by (simp add: at_end_def write_bytes_def)

lemma loopStack_write [simp]: "loopStack (write_bytes bs g) = loopStack g"
  by (simp add: write_bytes_def)

lemma appends_write: "at_end g \<Longrightarrow> appends g (write_bytes bs g)"
  by (simp add: appends_def)

lemma appends_write2: "at_end g \<Longrightarrow> appends g (write_bytes bs (write_bytes cs g))"
  by (simp add: appends_def)

lemma appends_straight:
  assumes "at_end g"
  shows "appends g (elf_emitMovePointerImpl d g)"
    and "appends g (elf_emitAddImpl d g)"
    and "appends g (elf_emitAssignImpl d g)"
    and "appends g (elf_emitPutcharImpl g)"
    and "appends g (elf_emitGetcharImpl g)"
    and "appends g (elf_emitAddVarImpl d g)"
    and "appends g (elf_emitSubVarImpl d g)"
    and "appends g (elf_emitAddCMulVarImpl d k g)"
  using assms
  by (simp_all add: appends_def elf_emitMovePointerImpl_def elf_emitAddImpl_def
      elf_emitAssignImpl_def elf_emitPutcharImpl_def elf_emitGetcharImpl_def
      elf_emitAddVarImpl_def elf_emitSubVarImpl_def elf_emitAddCMulVarImpl_def Let_def)

lemma elf_emitLoopStartImpl_at_end:
  assumes "at_end g"
  shows "elf_emitLoopStartImpl g =
     g\<lparr>sink := sink g @ [0x80, 0x39, 0x00, 0x0f, 0x84, 0x00, 0x00, 0x00, 0x00],
       tellp := length (sink g) + 9,
       loopStack := length (sink g) # loopStack g\<rparr>"
  using assms
  by (simp add: elf_emitLoopStartImpl_def write_bytes_def at_end_def le_bytes_1 le_bytes_4 Let_def)

lemma elf_emitLoopEndImpl_at_end:
  assumes "at_end g" "loopStack g = pos # rest" "pos + 9 \<le> length (sink g)"
  shows "elf_emitLoopEndImpl sz g =
     Some (g\<lparr>sink := take (pos + 5) (sink g) @
                     le_bytes 4 (int (length (sink g) + length (back_jump sz pos (length (sink g))))
                                 - int pos - 9) @
                     drop (pos + 9) (sink g) @ back_jump sz pos (length (sink g)),
             tellp := length (sink g) + length (back_jump sz pos (length (sink g))),
             loopStack := rest\<rparr>)"
  using assms
  by (simp add: elf_emitLoopEndImpl_def write_bytes_def seekp_def seekp_end_def at_end_def
      back_jump_def Let_def add.commute)

lemma elf_emitEndIfImpl_at_end:
  assumes "at_end g" "loopStack g = pos # rest" "pos + 9 \<le> length (sink g)"
  shows "elf_emitEndIfImpl g =
     Some (g\<lparr>sink := take (pos + 5) (sink g) @
                     le_bytes 4 (int (length (sink g)) - int pos - 9) @
                     drop (pos + 9) (sink g),
             tellp := length (sink g),
             loopStack := rest\<rparr>)"
  using assms
  by (simp add: elf_emitEndIfImpl_def write_bytes_def seekp_def seekp_end_def at_end_def Let_def
      add.commute)


lemma appends_frame:
  "appends g g' \<Longrightarrow> M \<le> length (sink g) \<Longrightarrow>
     at_end g' \<and> take M (sink g') = take M (sink g) \<and> length (sink g) \<le> length (sink g')
     \<and> loopStack g' = loopStack g"
  by (auto simp: appends_def)

lemma paired_Cons_cases:
  "paired st (x # xs) \<Longrightarrow>
     (is_open x \<and> (\<exists>b. paired (b # st) xs))
     \<or> (is_close x \<and> (\<exists>b st'. st = b # st' \<and> paired st' xs))
     \<or> (\<not> is_open x \<and> \<not> is_close x \<and> paired st xs)"
  by (cases x; cases st; auto split: bracket.splits list.splits)

lemma elf_emitInfLoopImpl_at_end:
  assumes "at_end g"
  shows "elf_emitInfLoopImpl g =
     Some (g\<lparr>sink := sink g @ [0x80, 0x39, 0x00, 0x0f, 0x84] @ le_bytes 4 2 @ [0xeb, 0xfe],
             tellp := length (sink g) + 11\<rparr>)"
proof -
  let ?g1 = "write_bytes (le_bytes 1 (- 2)) (write_bytes [0xeb] (elf_emitLoopStartImpl g))"
  have g1: "?g1 = g\<lparr>sink := sink g @ [0x80, 0x39, 0x00, 0x0f, 0x84, 0x00, 0x00, 0x00, 0x00, 0xeb, 0xfe],
       tellp := length (sink g) + 11,
       loopStack := length (sink g) # loopStack g\<rparr>"
    using assms
    by (simp add: elf_emitLoopStartImpl_at_end write_bytes_def at_end_def le_bytes_1)
  have e: "at_end ?g1" "loopStack ?g1 = length (sink g) # loopStack g"
    "length (sink g) + 9 \<le> length (sink ?g1)"
    unfolding g1 by (simp_all add: at_end_def)
  show ?thesis
    unfolding elf_emitInfLoopImpl_def elf_emitIfImpl_def Let_def elf_emitEndIfImpl_at_end [OF e]
    unfolding g1 by (simp add: le_bytes_4)
qed

lemma elf_emitOp_frame:
  assumes "at_end g" "M \<le> length (sink g)"
    and "is_close x \<Longrightarrow> \<exists>p rest. loopStack g = p # rest \<and> M \<le> p \<and> p + 9 \<le> length (sink g)"
  shows "\<exists>g'. elf_emitOp sz ext x g = Some g' \<and> at_end g'
     \<and> take M (sink g') = take M (sink g) \<and> length (sink g) \<le> length (sink g')
     \<and> loopStack g' = stack_after x (length (sink g)) (loopStack g)
     \<and> (is_open x \<longrightarrow> length (sink g') = length (sink g) + 9)"
proof -
  note str = appends_straight [OF assms(1)] appends_write [OF assms(1)]
  note fr = appends_frame [OF _ assms(2)]
  have opn: ?thesis if "x = LoopStart \<or> x = IfStart"
    using that assms(1,2)
    by (auto simp: elf_emitIfImpl_def elf_emitLoopStartImpl_at_end stack_after_def at_end_def)
  have cls: ?thesis if "x = LoopEnd \<or> x = IfEnd"
  proof -
    from that assms(3) obtain p rest where
      p: "loopStack g = p # rest" "M \<le> p" "p + 9 \<le> length (sink g)" by auto
    from that show ?thesis
      using p(2,3)
      by (auto simp: elf_emitLoopEndImpl_at_end [OF assms(1) p(1,3)]
          elf_emitEndIfImpl_at_end [OF assms(1) p(1,3)] stack_after_def at_end_def p(1))
  qed
  have inf: ?thesis if "x = InfLoop"
    using that assms(1,2)
    by (simp add: elf_emitInfLoopImpl_at_end stack_after_def at_end_def)
  show ?thesis
  proof (cases x)
    case (MovePtr d) with fr [OF str(1)] show ?thesis by (simp add: stack_after_def)
  next
    case (Add d) with fr [OF str(2)] show ?thesis by (simp add: stack_after_def)
  next
    case (Assign d) with fr [OF str(3)] show ?thesis by (simp add: stack_after_def)
  next
    case Putchar with fr [OF str(4)] show ?thesis by (simp add: stack_after_def)
  next
    case Getchar with fr [OF str(5)] show ?thesis by (simp add: stack_after_def)
  next
    case (AddVar d) with fr [OF str(6)] show ?thesis by (simp add: stack_after_def)
  next
    case (SubVar d) with fr [OF str(7)] show ?thesis by (simp add: stack_after_def)
  next
    case (AddMulVar d k) with fr [OF str(8)] show ?thesis by (simp add: stack_after_def)
  next
    case (SearchZero d) with fr [OF str(9)] show ?thesis by (simp add: stack_after_def)
  next
    case BreakPoint with fr [OF str(9)] show ?thesis by (simp add: stack_after_def)
  qed (use opn cls inf in blast)+
qed


lemma elf_emitOps_frame:
  "paired st ops \<Longrightarrow> at_end g \<Longrightarrow> loopStack g = ps @ base \<Longrightarrow> length ps = length st \<Longrightarrow>
   (\<forall>p \<in> set ps. M \<le> p \<and> p + 9 \<le> length (sink g)) \<Longrightarrow> M \<le> length (sink g) \<Longrightarrow>
   \<exists>g'. elf_emitOps sz ext ops g = Some g' \<and> at_end g' \<and> loopStack g' = base
        \<and> take M (sink g') = take M (sink g) \<and> length (sink g) \<le> length (sink g')"
proof (induction ops arbitrary: st g ps)
  case Nil
  then show ?case by simp
next
  case (Cons x xs)
  have pre: "\<exists>p rest. loopStack g = p # rest \<and> M \<le> p \<and> p + 9 \<le> length (sink g)"
    if "is_close x"
  proof -
    from paired_Cons_cases [OF Cons.prems(1)] that obtain b st' where "st = b # st'"
      by (cases x) auto
    with Cons.prems(4) obtain p ps' where "ps = p # ps'" by (cases ps) auto
    with Cons.prems(3,5) show ?thesis by auto
  qed
  from elf_emitOp_frame [OF Cons.prems(2) Cons.prems(6) pre, where sz = sz and ext = ext]
  obtain g1 where g1: "elf_emitOp sz ext x g = Some g1" "at_end g1"
      "take M (sink g1) = take M (sink g)" "length (sink g) \<le> length (sink g1)"
      "loopStack g1 = stack_after x (length (sink g)) (loopStack g)"
      "is_open x \<longrightarrow> length (sink g1) = length (sink g) + 9"
    by blast
  have "\<exists>st' ps'. paired st' xs \<and> loopStack g1 = ps' @ base \<and> length ps' = length st'
      \<and> (\<forall>p \<in> set ps'. M \<le> p \<and> p + 9 \<le> length (sink g1))"
  proof -
    from paired_Cons_cases [OF Cons.prems(1)]
    consider (opn) b where "is_open x" "paired (b # st) xs"
      | (cls) b st' where "is_close x" "st = b # st'" "paired st' xs"
      | (oth) "\<not> is_open x" "\<not> is_close x" "paired st xs"
      by blast
    then show ?thesis
    proof cases
      case opn
      have "loopStack g1 = (length (sink g) # ps) @ base"
        using g1(5) opn(1) Cons.prems(3) by (simp add: stack_after_def)
      moreover have "\<forall>p \<in> set (length (sink g) # ps). M \<le> p \<and> p + 9 \<le> length (sink g1)"
        using g1(4,6) opn(1) Cons.prems(5,6) by auto
      ultimately show ?thesis using opn(2) Cons.prems(4)
        by (intro exI [of _ "b # st"] exI [of _ "length (sink g) # ps"]) simp
    next
      case cls
      from cls(2) Cons.prems(4) obtain p ps' where ps: "ps = p # ps'" by (cases ps) auto
      have "is_open x = False" using cls(1) by (cases x) auto
      then have "loopStack g1 = ps' @ base"
        using g1(5) cls(1) Cons.prems(3) ps by (simp add: stack_after_def)
      moreover have "\<forall>p \<in> set ps'. M \<le> p \<and> p + 9 \<le> length (sink g1)"
        using g1(4) Cons.prems(5) ps by auto
      ultimately show ?thesis using cls(2,3) Cons.prems(4) ps
        by (intro exI [of _ st'] exI [of _ ps']) simp
    next
      case oth
      have "loopStack g1 = ps @ base"
        using g1(5) oth(1,2) Cons.prems(3) by (simp add: stack_after_def)
      moreover have "\<forall>p \<in> set ps. M \<le> p \<and> p + 9 \<le> length (sink g1)"
        using g1(4) Cons.prems(5) by auto
      ultimately show ?thesis using oth(3) Cons.prems(4)
        by (intro exI [of _ st] exI [of _ ps]) simp
    qed
  qed
  then obtain st' ps' where nx: "paired st' xs" "loopStack g1 = ps' @ base"
      "length ps' = length st'" "\<forall>p \<in> set ps'. M \<le> p \<and> p + 9 \<le> length (sink g1)"
    by blast
  have "M \<le> length (sink g1)" using Cons.prems(6) g1(4) by simp
  from Cons.IH [OF nx(1) g1(2) nx(2) nx(3) nx(4) this]
  obtain g' where "elf_emitOps sz ext xs g1 = Some g'" "at_end g'" "loopStack g' = base"
      "take M (sink g') = take M (sink g1)" "length (sink g1) \<le> length (sink g')"
    by blast
  with g1(1,3,4) show ?case by simp
qed


lemma elf_emitOps_append:
  "elf_emitOps sz ext (xs @ ys) g =
     (case elf_emitOps sz ext xs g of None \<Rightarrow> None | Some g' \<Rightarrow> elf_emitOps sz ext ys g')"
  by (induction xs arbitrary: g) (auto split: option.splits)

lemma take_le_bytes: "n \<le> m \<Longrightarrow> take n (le_bytes m v) = le_bytes n v"
proof (induction m arbitrary: n v)
  case 0
  then show ?case by simp
next
  case (Suc m)
  then show ?case by (cases n) simp_all
qed

text \<open>The code of a loop: what \<open>LoopStart\<close>, a well-paired body and \<open>LoopEnd\<close> leave in the sink.\<close>

lemma elf_loop_code:
  assumes "at_end g0" "paired [] body"
  shows "\<exists>gb g' code.
      elf_emitOps sz ext body (elf_emitLoopStartImpl g0) = Some gb
    \<and> sink gb = sink g0 @ [0x80, 0x39, 0x00, 0x0f, 0x84, 0x00, 0x00, 0x00, 0x00] @ code
    \<and> elf_emitOps sz ext (LoopStart # body @ [LoopEnd]) g0 = Some g'
    \<and> sink g' = sink g0 @ [0x80, 0x39, 0x00, 0x0f, 0x84]
         @ le_bytes 4 (int (length code + length (back_jump sz (length (sink g0)) (length (sink gb)))))
         @ code @ back_jump sz (length (sink g0)) (length (sink gb))
    \<and> at_end g' \<and> loopStack g' = loopStack g0"
proof -
  let ?L = "length (sink g0)"
  let ?H = "[0x80, 0x39, 0x00, 0x0f, 0x84, 0x00, 0x00, 0x00, 0x00] :: u8 list"
  let ?g1 = "elf_emitLoopStartImpl g0"
  have g1: "sink ?g1 = sink g0 @ ?H" "at_end ?g1" "loopStack ?g1 = [] @ (?L # loopStack g0)"
    using assms(1) by (simp_all add: elf_emitLoopStartImpl_at_end at_end_def)
  have len1: "length (sink ?g1) = ?L + 9" by (simp add: g1(1))
  from elf_emitOps_frame [OF assms(2) g1(2) g1(3), of "?L + 9" sz ext]
  obtain gb where gb: "elf_emitOps sz ext body ?g1 = Some gb" "at_end gb"
      "loopStack gb = ?L # loopStack g0" "take (?L + 9) (sink gb) = take (?L + 9) (sink ?g1)"
      "length (sink ?g1) \<le> length (sink gb)"
    by (auto simp: len1)
  define code where "code = drop (?L + 9) (sink gb)"
  have "sink gb = take (?L + 9) (sink gb) @ code" by (simp add: code_def)
  with gb(4) have sgb: "sink gb = sink g0 @ ?H @ code" by (simp add: g1(1))
  have le: "?L + 9 \<le> length (sink gb)" using gb(5) len1 by simp
  note e = elf_emitLoopEndImpl_at_end [OF gb(2) gb(3) le, of sz]
  let ?j = "back_jump sz ?L (length (sink gb))"
  have tk: "take (?L + 5) (sink gb) = sink g0 @ [0x80, 0x39, 0x00, 0x0f, 0x84]"
    by (simp add: sgb)
  have dr: "drop (?L + 9) (sink gb) = code" by (simp add: code_def)
  have ln: "int (length (sink gb) + length ?j) - int ?L - 9 = int (length code + length ?j)"
    by (simp add: sgb)
  have run: "elf_emitOps sz ext (LoopStart # body @ [LoopEnd]) g0 = elf_emitLoopEndImpl sz gb"
    by (simp add: elf_emitOps_append gb(1) split: option.splits)
  show ?thesis
    apply (rule exI [of _ gb])
    apply (rule exI [of _ "the (elf_emitLoopEndImpl sz gb)"])
    apply (rule exI [of _ code])
    apply (simp only: run gb(1) e option.sel tk dr ln)
    apply (simp add: sgb at_end_def)
    done
qed


section \<open>Loop ends of the x86 ELF backend\<close>

text \<open>
  C2. For the traversal of \<open>LoopStart\<close>, a well-paired loop body and the matching \<open>LoopEnd\<close>,
  started at the end of the sink: \<open>LoopEnd\<close> appends a backward jump to the compare that
  \<open>LoopStart\<close> wrote, short (\<^verbatim>\<open>EB rel8\<close>) when the displacement fits in 8 bits and near
  (\<^verbatim>\<open>E9 rel32\<close>) otherwise, and overwrites the placeholder displacement of the forward branch,
  at the pushed offset plus 5, with the distance to the instruction after the back jump.
\<close>

theorem C2_loop_end_backpatch:
  assumes "at_end g0" "paired [] body" "4 \<le> sz"
  shows "\<exists>gb g' code jmp.
      elf_emitOps sz ext body (elf_emitLoopStartImpl g0) = Some gb
    \<and> sink gb = sink g0 @ [0x80, 0x39, 0x00, 0x0f, 0x84, 0x00, 0x00, 0x00, 0x00] @ code
    \<and> elf_emitOps sz ext (LoopStart # body @ [LoopEnd]) g0 = Some g'
    \<and> jmp = (if - 128 \<le> - int (length code) - 11
              then [0xeb] @ le_bytes 1 (- int (length code) - 11)
              else [0xe9] @ le_bytes sz (- int (length code) - 14))
    \<and> sink g' = sink g0 @ [0x80, 0x39, 0x00, 0x0f, 0x84]
         @ le_bytes 4 (int (length code + length jmp)) @ code @ jmp
    \<and> at_end g' \<and> loopStack g' = loopStack g0
    \<and> (length (sink g') < 2 ^ 31 \<longrightarrow>
          jmp_target (sink g') (length (sink gb)) = Some (int (length (sink g0)))
        \<and> je_target (sink g') (length (sink g0) + 3) = Some (int (length (sink g'))))"
proof -
  from elf_loop_code [OF assms(1,2), of sz ext]
  obtain gb g' code where
    gb: "elf_emitOps sz ext body (elf_emitLoopStartImpl g0) = Some gb"
    and sgb: "sink gb = sink g0 @ [0x80, 0x39, 0x00, 0x0f, 0x84, 0x00, 0x00, 0x00, 0x00] @ code"
    and g': "elf_emitOps sz ext (LoopStart # body @ [LoopEnd]) g0 = Some g'"
    and sg': "sink g' = sink g0 @ [0x80, 0x39, 0x00, 0x0f, 0x84]
         @ le_bytes 4 (int (length code + length (back_jump sz (length (sink g0)) (length (sink gb)))))
         @ code @ back_jump sz (length (sink g0)) (length (sink gb))"
    and fin: "at_end g'" "loopStack g' = loopStack g0"
    by blast
  define n where "n = length code"
  define L where "L = length (sink g0)"
  define jmp where "jmp = (if - 128 \<le> - int n - 11
              then [0xeb] @ le_bytes 1 (- int n - 11)
              else [0xe9] @ le_bytes sz (- int n - 14))"
  have cur: "length (sink gb) = L + 9 + n" by (simp add: sgb n_def L_def)
  have a1: "int L - int (L + 9 + n) - 2 = - int n - 11" by simp
  have a2: "int L - int (L + 9 + n) - 5 = - int n - 14" by simp
  have bj: "back_jump sz (length (sink g0)) (length (sink gb)) = jmp"
    unfolding cur back_jump_def jmp_def L_def [symmetric] a1 a2
    by (cases "- 128 \<le> - int n - 11") (simp_all only: if_True if_False not_le [symmetric] not_not not_True_eq_False not_False_eq_True)
  have sg: "sink g' = sink g0 @ [0x80, 0x39, 0x00, 0x0f, 0x84]
         @ le_bytes 4 (int (n + length jmp)) @ code @ jmp"
    using sg' unfolding bj n_def by simp
  have lg: "length (sink g') = L + 9 + n + length jmp" by (simp add: sg n_def L_def)
  have ljmp: "length jmp = (if - 128 \<le> - int n - 11 then 2 else 1 + sz)"
    by (simp add: jmp_def)
  have tgt: "jmp_target (sink g') (length (sink gb)) = Some (int (length (sink g0)))
        \<and> je_target (sink g') (length (sink g0) + 3) = Some (int (length (sink g')))"
    if small: "length (sink g') < 2 ^ 31"
  proof
    let ?pre = "sink g0 @ [0x80, 0x39, 0x00, 0x0f, 0x84] @ le_bytes 4 (int (n + length jmp)) @ code"
    have "sink g' = ?pre @ jmp" by (simp add: sg)
    moreover have "length ?pre = length (sink gb)" by (simp add: cur n_def L_def)
    ultimately have dj: "drop (length (sink gb)) (sink g') = jmp"
      by (metis append_eq_conv_conj)
    show "jmp_target (sink g') (length (sink gb)) = Some (int (length (sink g0)))"
    proof (cases "- 128 \<le> - int n - 11")
      case True
      have "le_signed (le_bytes 1 (- int n - 11)) = - int n - 11"
        by (rule le_signed_le_bytes) (use True in simp_all)
      with True show ?thesis
        unfolding jmp_target_def dj
        by (simp add: jmp_def cur L_def)
    next
      case False
      have "- (2 ^ 31) \<le> - int n - 14" using small lg ljmp False assms(3) by simp
      then have "le_signed (le_bytes 4 (- int n - 14)) = - int n - 14"
        by (intro le_signed_le_bytes) simp_all
      with False assms(3) show ?thesis
        unfolding jmp_target_def dj
        by (simp add: jmp_def cur L_def take_le_bytes)
    qed
    have "sink g' = (sink g0 @ [0x80, 0x39, 0x00])
        @ [0x0f, 0x84] @ le_bytes 4 (int (n + length jmp)) @ code @ jmp"
      by (simp add: sg)
    moreover have "length (sink g0 @ [0x80, 0x39, 0x00 :: u8]) = length (sink g0) + 3" by simp
    ultimately have de: "drop (length (sink g0) + 3) (sink g')
        = [0x0f, 0x84] @ le_bytes 4 (int (n + length jmp)) @ code @ jmp"
      by (metis append_eq_conv_conj)
    have "int (n + length jmp) < 2 ^ 31" using small lg by simp
    then have "le_signed (le_bytes 4 (int (n + length jmp))) = int (n + length jmp)"
      by (intro le_signed_le_bytes) simp_all
    then show "je_target (sink g') (length (sink g0) + 3) = Some (int (length (sink g')))"
      unfolding je_target_def de
      by (simp add: lg L_def)
  qed
  show ?thesis
    apply (rule exI [of _ gb])
    apply (rule exI [of _ g'])
    apply (rule exI [of _ code])
    apply (rule exI [of _ jmp])
    using gb sgb g' sg fin tgt unfolding jmp_def n_def
    apply blast
    done
qed


lemma elf_small_loop_bytes:
  "map_option sink (elf_emitOps 4 no_ext [LoopStart, Add 1, LoopEnd] GeneratorElfX86)
     = Some [0x80, 0x39, 0x00, 0x0f, 0x84, 0x04, 0x00, 0x00, 0x00, 0xfe, 0x01, 0xeb, 0xf3]"
  by (simp add: GeneratorElfX86_def elf_emitLoopStartImpl_def elf_emitAddImpl_def
      elf_emitLoopEndImpl_def write_bytes_def seekp_def seekp_end_def le_bytes_1 le_bytes_4
      Let_def)

theorem C2_small_loop_witness:
  "at_end GeneratorElfX86 \<and> paired [] [Add 1] \<and> (4::nat) \<le> 4
   \<and> (\<exists>gb g'.
        elf_emitOps 4 no_ext [Add 1] (elf_emitLoopStartImpl GeneratorElfX86) = Some gb
      \<and> sink gb = [0x80, 0x39, 0x00, 0x0f, 0x84, 0x00, 0x00, 0x00, 0x00, 0xfe, 0x01]
      \<and> elf_emitOps 4 no_ext [LoopStart, Add 1, LoopEnd] GeneratorElfX86 = Some g'
      \<and> sink g' = [0x80, 0x39, 0x00, 0x0f, 0x84, 0x04, 0x00, 0x00, 0x00, 0xfe, 0x01, 0xeb, 0xf3]
      \<and> length (sink g') < 2 ^ 31
      \<and> jmp_target (sink g') (length (sink gb)) = Some 0
      \<and> je_target (sink g') 3 = Some 13)"
proof -
  have h1: "at_end GeneratorElfX86" by (simp add: at_end_def GeneratorElfX86_def)
  have h2: "paired [] [Add 1]" by simp
  have h3: "(4::nat) \<le> 4" by simp
  from C2_loop_end_backpatch [OF h1 h2 h3, of no_ext]
  obtain gb g' code jmp where
    gb: "elf_emitOps 4 no_ext [Add 1] (elf_emitLoopStartImpl GeneratorElfX86) = Some gb"
    and sgb: "sink gb = sink GeneratorElfX86 @ [0x80, 0x39, 0x00, 0x0f, 0x84, 0x00, 0x00, 0x00, 0x00] @ code"
    and g': "elf_emitOps 4 no_ext (LoopStart # [Add 1] @ [LoopEnd]) GeneratorElfX86 = Some g'"
    and tg: "length (sink g') < 2 ^ 31 \<longrightarrow>
          jmp_target (sink g') (length (sink gb)) = Some (int (length (sink GeneratorElfX86)))
        \<and> je_target (sink g') (length (sink GeneratorElfX86) + 3) = Some (int (length (sink g')))"
    by blast
  from g' elf_small_loop_bytes
  have sg: "sink g' = [0x80, 0x39, 0x00, 0x0f, 0x84, 0x04, 0x00, 0x00, 0x00, 0xfe, 0x01, 0xeb, 0xf3]"
    by simp
  have "elf_emitOps 4 no_ext [Add 1] (elf_emitLoopStartImpl GeneratorElfX86)
      = Some (elf_emitAddImpl 1 (elf_emitLoopStartImpl GeneratorElfX86))" by simp
  with gb have "gb = elf_emitAddImpl 1 (elf_emitLoopStartImpl GeneratorElfX86)" by simp
  moreover have "elf_emitLoopStartImpl GeneratorElfX86 =
      \<lparr>sink = [0x80, 0x39, 0x00, 0x0f, 0x84, 0x00, 0x00, 0x00, 0x00], tellp = 9, loopStack = [0]\<rparr>"
    unfolding elf_emitLoopStartImpl_at_end [OF h1] by (simp add: GeneratorElfX86_def)
  ultimately have sb: "sink gb = [0x80, 0x39, 0x00, 0x0f, 0x84, 0x00, 0x00, 0x00, 0x00, 0xfe, 0x01]"
    by (simp add: elf_emitAddImpl_def write_bytes_def)
  have small: "length (sink g') < 2 ^ 31" by (simp add: sg)
  from tg small have "jmp_target (sink g') (length (sink gb)) = Some 0"
    "je_target (sink g') 3 = Some 13"
    by (simp_all add: GeneratorElfX86_def sg)
  with h1 h2 h3 gb sb g' sg small show ?thesis by auto
qed

section \<open>Layout of the ELF file\<close>

lemma length_uninit [simp]: "length (uninit n junk) = n"
  by (simp add: uninit_def)

lemma length_ehdr_bytes [simp]: "length (ehdr_bytes h) = 52"
  by (simp add: ehdr_bytes_def)

lemma length_phdr_bytes [simp]: "length (phdr_bytes h) = 32"
  by (simp add: phdr_bytes_def)

lemma length_shdr_bytes [simp]: "length (shdr_bytes h) = 40"
  by (simp add: shdr_bytes_def)

lemma length_cstr [simp]: "length (cstr s) = length s"
  by (simp add: cstr_def)

lemma length_kShStrTbl [simp]: "length kShStrTbl = 22"
  by (simp add: kShStrTbl_def)

lemma kHeaderSize_eq: "kHeaderSize = 116"
  by (simp add: kHeaderSize_def sizeof_Ehdr_def sizeof_Phdr_def)

lemma elf_emitHeaderImpl_start:
  "elf_emitHeaderImpl junk GeneratorElfX86 =
     \<lparr>sink = uninit 52 junk @ uninit 32 junk @ uninit 32 junk @ [0xb9] @ le_bytes 4 (int kBssAddr),
      tellp = 121, loopStack = []\<rparr>"
  by (simp add: elf_emitHeaderImpl_def GeneratorElfX86_def write_bytes_def sizeof_Ehdr_def
      sizeof_Phdr_def Let_def)

lemma tellp_write [simp]: "at_end g \<Longrightarrow> tellp (write_bytes bs g) = length (sink g) + length bs"
  by (simp add: at_end_def write_bytes_def)

lemma elf_emitExit_at_end:
  assumes "at_end g"
  shows "sink (elf_emitExit g) = sink g @ elf_exit_code" and "at_end (elf_emitExit g)"
  using assms
  by (simp_all add: elf_emitExit_def elf_emitAssignImpl_def elf_emitPutcharImpl_def
      elf_exit_code_def le_bytes_1 le_bytes_4 Let_def)

lemma write_prefix:
  "tellp g = length pre \<Longrightarrow> sink g = pre @ rest \<Longrightarrow> length bs \<le> length rest \<Longrightarrow>
     write_bytes bs g = g\<lparr>sink := pre @ bs @ drop (length bs) rest, tellp := length pre + length bs\<rparr>"
  by (simp add: write_bytes_def)

lemma elf_emitFooterImpl_at_end:
  assumes "at_end g" "116 \<le> length (sink g)"
  shows "sink (elf_emitFooterImpl junk g) =
       ehdr_bytes (elf_header junk (length (sink g) + 32 - 116))
     @ phdr_bytes (phdr_text (length (sink g) + 32 - 116))
     @ phdr_bytes phdr_bss
     @ drop 116 (sink g) @ elf_exit_code
     @ kShStrTbl
     @ shdr_bytes shdr_null
     @ shdr_bytes (shdr_shstrtbl (length (sink g) + 32 - 116))
     @ shdr_bytes (shdr_text (length (sink g) + 32 - 116))
     @ shdr_bytes shdr_bss"
proof -
  define c where "c = length (sink g) + 32 - 116"
  define tail where "tail = kShStrTbl @ shdr_bytes shdr_null @ shdr_bytes (shdr_shstrtbl c)
     @ shdr_bytes (shdr_text c) @ shdr_bytes shdr_bss"
  define F where "F = sink g @ elf_exit_code @ tail"
  let ?g1 = "elf_emitExit g"
  note g1 = elf_emitExit_at_end(1) [OF assms(1)]
  have e1: "at_end ?g1" by (rule elf_emitExit_at_end(2) [OF assms(1)])
  have "length elf_exit_code = 32" by (simp add: elf_exit_code_def)
  with e1 have c1: "tellp ?g1 - kHeaderSize = c"
    by (simp add: at_end_def g1 c_def kHeaderSize_eq)
  let ?g6 = "write_bytes (shdr_bytes shdr_bss) (write_bytes (shdr_bytes (shdr_text c))
      (write_bytes (shdr_bytes (shdr_shstrtbl c)) (write_bytes (shdr_bytes shdr_null)
      (write_bytes kShStrTbl ?g1))))"
  have s6: "sink ?g6 = F" using e1 by (simp add: F_def tail_def g1)
  have lF: "116 \<le> length F" using assms(2) by (simp add: F_def)
  let ?E = "ehdr_bytes (elf_header junk c)"
  let ?P1 = "phdr_bytes (phdr_text c)"
  let ?P2 = "phdr_bytes phdr_bss"
  let ?g7 = "seekp 0 ?g6"
  have g7: "tellp ?g7 = length ([] :: u8 list)" "sink ?g7 = [] @ F"
    by (simp_all add: seekp_def s6)
  have g8: "write_bytes ?E ?g7 = ?g7\<lparr>sink := [] @ ?E @ drop (length ?E) F, tellp := length ([] :: u8 list) + length ?E\<rparr>"
    by (rule write_prefix [OF g7]) (use lF in simp)
  let ?g8 = "write_bytes ?E ?g7"
  have g8': "tellp ?g8 = length ?E" "sink ?g8 = ?E @ drop 52 F"
    by (simp_all add: g8)
  have g9: "write_bytes ?P1 ?g8 = ?g8\<lparr>sink := ?E @ ?P1 @ drop (length ?P1) (drop 52 F), tellp := length ?E + length ?P1\<rparr>"
    by (rule write_prefix [OF g8']) (use lF in simp)
  let ?g9 = "write_bytes ?P1 ?g8"
  have g9': "tellp ?g9 = length (?E @ ?P1)" "sink ?g9 = (?E @ ?P1) @ drop 84 F"
    by (simp_all add: g9)
  have g10: "write_bytes ?P2 ?g9 = ?g9\<lparr>sink := (?E @ ?P1) @ ?P2 @ drop (length ?P2) (drop 84 F), tellp := length (?E @ ?P1) + length ?P2\<rparr>"
    by (rule write_prefix [OF g9']) (use lF in simp)
  have "sink (seekp_end (write_bytes ?P2 ?g9)) = ?E @ ?P1 @ ?P2 @ drop 116 F"
    by (simp add: g10 seekp_end_def)
  moreover have "drop 116 F = drop 116 (sink g) @ elf_exit_code @ tail"
    using assms(2) by (simp add: F_def)
  moreover have "elf_emitFooterImpl junk g = seekp_end (write_bytes ?P2 ?g9)"
    unfolding elf_emitFooterImpl_def Let_def c1 by (rule refl)
  ultimately show ?thesis by (simp add: tail_def c_def)
qed


lemma kShStrTbl_bytes:
  "kShStrTbl = [0, 0x2e, 0x74, 0x65, 0x78, 0x74, 0, 0x2e, 0x73, 0x68, 0x73, 0x74, 0x72, 0x74, 0x62,
     0x6c, 0, 0x2e, 0x62, 0x73, 0x73, 0]"
  by code_simp

lemma section_names:
  "cstring_at kShStrTbl 0 = cstr ''''"
  "cstring_at kShStrTbl 7 = cstr ''.shstrtbl''"
  "cstring_at kShStrTbl 1 = cstr ''.text''"
  "cstring_at kShStrTbl 17 = cstr ''.bss''"
  by code_simp+

lemma shstrtbl_not_shstrtab: "cstr ''.shstrtbl'' \<noteq> cstr ''.shstrtab''"
  by code_simp



lemma field_at_le_bytes:
  assumes "length pre = off" "v < 256 ^ n"
  shows "field_at (pre @ le_bytes n (int v) @ post) off n = v"
proof -
  have "take n (drop off (pre @ le_bytes n (int v) @ post)) = le_bytes n (int v)"
    using assms(1) by simp
  moreover have "int v mod 256 ^ n = int v"
    using assms(2) by (simp add: zmod_int [symmetric] flip: of_nat_power)
  ultimately show ?thesis by (simp add: field_at_def le_val_le_bytes)
qed

lemma takeWhile_all_neq: "(0::u8) \<notin> set a \<Longrightarrow> takeWhile (\<lambda>b. b \<noteq> 0) a = a"
  by (induction a) auto


lemma cstring_at_append:
  assumes "i \<le> length tbl" "0 \<in> set (drop i tbl)"
  shows "cstring_at (tbl @ rest) i = cstring_at tbl i"
proof -
  from assms(2) obtain a b where ab: "drop i tbl = a @ 0 # b" "0 \<notin> set a"
    by (meson split_list_first)
  have tw: "takeWhile (\<lambda>b. b \<noteq> 0) (a @ 0 # r) = a" for r
    using ab(2) by (simp add: takeWhile_tail takeWhile_all_neq)
  have "drop i (tbl @ rest) = a @ 0 # (b @ rest)" using assms(1) ab(1) by simp
  then show ?thesis by (simp add: cstring_at_def ab(1) tw)
qed


lemma at_end_seekp_end: "at_end (seekp_end g)"
  by (simp add: at_end_def seekp_end_def)

lemma loopStack_seek: "loopStack (seekp_end g) = loopStack g" "loopStack (seekp n g) = loopStack g"
  by (simp_all add: seekp_end_def seekp_def)

lemma loopStack_elf_emitExit: "loopStack (elf_emitExit g) = loopStack g"
  unfolding elf_emitExit_def elf_emitAssignImpl_def elf_emitPutcharImpl_def Let_def
  by (simp only: loopStack_write)

lemma loopStack_elf_emitFooterImpl: "loopStack (elf_emitFooterImpl junk g) = loopStack g"
  unfolding elf_emitFooterImpl_def Let_def
  by (simp only: loopStack_write loopStack_seek loopStack_elf_emitExit)

lemma at_end_elf_emitFooterImpl: "at_end (elf_emitFooterImpl junk g)"
  unfolding elf_emitFooterImpl_def Let_def by (rule at_end_seekp_end)

lemma elf_file_generate:
  assumes "paired [] prog"
  shows "\<exists>g code. generateElfX86 sz ext junk prog = Some g \<and> at_end g
     \<and> sink g = elf_file junk code
     \<and> take 5 code = [0xb9] @ le_bytes 4 (int kBssAddr)
     \<and> loopStack g = []"
proof -
  let ?gh = "elf_emitHeaderImpl junk GeneratorElfX86"
  have gh: "sink ?gh = uninit 52 junk @ uninit 32 junk @ uninit 32 junk @ [0xb9] @ le_bytes 4 (int kBssAddr)"
    "at_end ?gh" "loopStack ?gh = [] @ []"
    by (simp_all add: elf_emitHeaderImpl_start at_end_def)
  have lh: "length (sink ?gh) = 121" by (simp add: gh(1))
  from elf_emitOps_frame [OF assms gh(2) gh(3), where M = 121 and sz = sz and ext = ext]
  obtain gb where gb: "elf_emitOps sz ext prog ?gh = Some gb" "at_end gb" "loopStack gb = []"
      "take 121 (sink gb) = take 121 (sink ?gh)" "length (sink ?gh) \<le> length (sink gb)"
    by (auto simp: lh)
  have l: "116 \<le> length (sink gb)" using gb(5) lh by simp
  define code where "code = drop 116 (sink gb) @ elf_exit_code"
  have lc: "length code = length (sink gb) + 32 - 116"
    using l by (simp add: code_def elf_exit_code_def)
  have "take 5 (drop 116 (sink gb)) = drop 116 (take 121 (sink gb))"
    by (simp add: drop_take)
  also have "\<dots> = [0xb9] @ le_bytes 4 (int kBssAddr)"
    by (simp add: gb(4) gh(1))
  finally have t5: "take 5 code = [0xb9] @ le_bytes 4 (int kBssAddr)"
    using gb(5) lh by (simp add: code_def)
  have sf: "sink (elf_emitFooterImpl junk gb) = elf_file junk code"
    unfolding elf_emitFooterImpl_at_end [OF gb(2) l] elf_file_def lc [symmetric]
    by (simp add: code_def)
  have ef: "at_end (elf_emitFooterImpl junk gb)" "loopStack (elf_emitFooterImpl junk gb) = []"
    by (simp_all only: at_end_elf_emitFooterImpl loopStack_elf_emitFooterImpl gb(3))
  show ?thesis
    apply (rule exI [of _ "elf_emitFooterImpl junk gb"])
    apply (rule exI [of _ code])
    using gb(1) sf t5 ef apply (simp add: generateElfX86_def)
    done
qed


lemma field_at_split:
  "F = pre @ le_bytes n (int v) @ post \<Longrightarrow> length pre = off \<Longrightarrow> v < 256 ^ n \<Longrightarrow>
     field_at F off n = v"
  by (simp add: field_at_le_bytes)

lemma elf_file_shoff:
  assumes "length code + 138 < 2 ^ 32"
  shows "field_at (elf_file junk code) 32 4 = 138 + length code"
proof -
  let ?H = "elf_header junk (length code)"
  let ?pre = "take 16 (e_ident ?H @ replicate 16 0) @ le_bytes 2 (int (e_type ?H))
      @ le_bytes 2 (int (e_machine ?H)) @ le_bytes 4 (int (e_version ?H))
      @ le_bytes 4 (int (e_entry ?H)) @ le_bytes 4 (int (e_phoff ?H))"
  have "\<exists>post. elf_file junk code = ?pre @ le_bytes 4 (int (e_shoff ?H)) @ post"
    by (simp add: elf_file_def ehdr_bytes_def)
  then obtain post where f: "elf_file junk code = ?pre @ le_bytes 4 (int (e_shoff ?H)) @ post" ..
  have v: "e_shoff ?H = 138 + length code" by (simp add: elf_header_def kHeaderSize_eq)
  have "field_at (elf_file junk code) 32 4 = e_shoff ?H"
    by (rule field_at_split [OF f]) (use assms v in simp_all)
  with v show ?thesis by simp
qed

lemma elf_file_shstrndx: "field_at (elf_file junk code) 50 2 = 1"
proof -
  let ?H = "elf_header junk (length code)"
  let ?pre = "take 16 (e_ident ?H @ replicate 16 0) @ le_bytes 2 (int (e_type ?H))
      @ le_bytes 2 (int (e_machine ?H)) @ le_bytes 4 (int (e_version ?H))
      @ le_bytes 4 (int (e_entry ?H)) @ le_bytes 4 (int (e_phoff ?H))
      @ le_bytes 4 (int (e_shoff ?H)) @ le_bytes 4 (int (e_flags ?H))
      @ le_bytes 2 (int (e_ehsize ?H)) @ le_bytes 2 (int (e_phentsize ?H))
      @ le_bytes 2 (int (e_phnum ?H)) @ le_bytes 2 (int (e_shentsize ?H))
      @ le_bytes 2 (int (e_shnum ?H))"
  have "\<exists>post. elf_file junk code = ?pre @ le_bytes 2 (int (e_shstrndx ?H)) @ post"
    by (simp add: elf_file_def ehdr_bytes_def)
  then obtain post where f: "elf_file junk code = ?pre @ le_bytes 2 (int (e_shstrndx ?H)) @ post" ..
  have v: "e_shstrndx ?H = 1" by (simp add: elf_header_def)
  have "field_at (elf_file junk code) 50 2 = e_shstrndx ?H"
    by (rule field_at_split [OF f]) (use v in simp_all)
  with v show ?thesis by simp
qed


lemma shdr_name_field:
  assumes "length pre = off" "sh_name s < 2 ^ 32"
  shows "field_at (pre @ shdr_bytes s @ post) off 4 = sh_name s"
proof -
  have "\<exists>r. pre @ shdr_bytes s @ post = pre @ le_bytes 4 (int (sh_name s)) @ r"
    by (simp add: shdr_bytes_def)
  then obtain r where "pre @ shdr_bytes s @ post = pre @ le_bytes 4 (int (sh_name s)) @ r" ..
  then show ?thesis by (rule field_at_split) (use assms in simp_all)
qed

lemma shdr_offset_field:
  assumes "length pre = off" "sh_offset s < 2 ^ 32"
  shows "field_at (pre @ shdr_bytes s @ post) (off + 16) 4 = sh_offset s"
proof -
  let ?p = "pre @ le_bytes 4 (int (sh_name s)) @ le_bytes 4 (int (sh_type s))
      @ le_bytes 4 (int (sh_flags s)) @ le_bytes 4 (int (sh_addr s))"
  have "\<exists>r. pre @ shdr_bytes s @ post = ?p @ le_bytes 4 (int (sh_offset s)) @ r"
    by (simp add: shdr_bytes_def)
  then obtain r where "pre @ shdr_bytes s @ post = ?p @ le_bytes 4 (int (sh_offset s)) @ r" ..
  then show ?thesis by (rule field_at_split) (use assms in simp_all)
qed

text \<open>The four section headers of a file, in the order the footer writes them.\<close>

lemma elf_file_shdr:
  assumes "i < 4"
  shows "\<exists>pre post. elf_file junk code
       = pre @ shdr_bytes ([shdr_null, shdr_shstrtbl (length code), shdr_text (length code),
                            shdr_bss] ! i) @ post
     \<and> length pre = 138 + length code + 40 * i"
proof -
  let ?A = "ehdr_bytes (elf_header junk (length code)) @ phdr_bytes (phdr_text (length code))
     @ phdr_bytes phdr_bss @ code @ kShStrTbl"
  let ?S0 = "shdr_bytes shdr_null"
  let ?S1 = "shdr_bytes (shdr_shstrtbl (length code))"
  let ?S2 = "shdr_bytes (shdr_text (length code))"
  let ?S3 = "shdr_bytes shdr_bss"
  from assms consider "i = 0" | "i = 1" | "i = 2" | "i = 3" by linarith
  then show ?thesis
  proof cases
    case 1
    show ?thesis
      by (rule exI [of _ ?A], rule exI [of _ "?S1 @ ?S2 @ ?S3"]) (simp add: 1 elf_file_def)
  next
    case 2
    show ?thesis
      by (rule exI [of _ "?A @ ?S0"], rule exI [of _ "?S2 @ ?S3"]) (simp add: 2 elf_file_def)
  next
    case 3
    show ?thesis
      by (rule exI [of _ "?A @ ?S0 @ ?S1"], rule exI [of _ "?S3"]) (simp add: 3 elf_file_def)
  next
    case 4
    show ?thesis
      by (rule exI [of _ "?A @ ?S0 @ ?S1 @ ?S2"], rule exI [of _ "[]"]) (simp add: 4 elf_file_def)
  qed
qed

lemma kShStrTbl_terminated:
  "i \<in> {0, 1, 7, 17} \<Longrightarrow> i \<le> length kShStrTbl \<and> 0 \<in> set (drop i kShStrTbl)"
  by (auto simp: kShStrTbl_bytes)

lemma sh_name_values:
  "sh_name shdr_null = 0" "sh_name (shdr_shstrtbl c) = 7" "sh_name (shdr_text c) = 1"
  "sh_name shdr_bss = 17"
  by (simp_all add: shdr_null_def shdr_shstrtbl_def shdr_text_def shdr_bss_def)

lemma elf_file_section_name:
  assumes "i < 4" "length code + 138 < 2 ^ 32"
  shows "section_name (elf_file junk code) i
     = cstring_at kShStrTbl (sh_name ([shdr_null, shdr_shstrtbl (length code),
          shdr_text (length code), shdr_bss] ! i))"
proof -
  let ?F = "elf_file junk code"
  let ?S = "[shdr_null, shdr_shstrtbl (length code), shdr_text (length code), shdr_bss]"
  have nm: "sh_name (?S ! i) \<in> {0, 1, 7, 17}"
  proof -
    from assms(1) consider "i = 0" | "i = 1" | "i = 2" | "i = 3" by linarith
    then show ?thesis by cases (simp_all add: sh_name_values)
  qed
  then have nm32: "sh_name (?S ! i) < 2 ^ 32" by auto
  from elf_file_shdr [OF assms(1), of junk code] obtain pre post where
    fi: "?F = pre @ shdr_bytes (?S ! i) @ post" "length pre = 138 + length code + 40 * i"
    by blast
  have name: "field_at ?F (138 + length code + 40 * i) 4 = sh_name (?S ! i)"
    unfolding fi(1) by (rule shdr_name_field [OF fi(2) nm32])
  from elf_file_shdr [of 1 junk code] obtain pre1 post1 where
    f1: "?F = pre1 @ shdr_bytes (shdr_shstrtbl (length code)) @ post1"
      "length pre1 = 138 + length code + 40"
    by auto
  have so: "sh_offset (shdr_shstrtbl (length code)) = 116 + length code"
    by (simp add: shdr_shstrtbl_def kHeaderSize_eq)
  have "field_at ?F (138 + length code + 40 + 16) 4 = sh_offset (shdr_shstrtbl (length code))"
    unfolding f1(1) by (rule shdr_offset_field [OF f1(2)]) (use so assms(2) in simp)
  with so have stroff: "field_at ?F (138 + length code + 40 * 1 + 16) 4 = 116 + length code"
    by simp
  let ?A = "ehdr_bytes (elf_header junk (length code)) @ phdr_bytes (phdr_text (length code))
     @ phdr_bytes phdr_bss @ code"
  have "\<exists>r. ?F = ?A @ kShStrTbl @ r" by (simp add: elf_file_def)
  then obtain r where "?F = ?A @ kShStrTbl @ r" ..
  moreover have "length ?A = 116 + length code" by simp
  ultimately have dr: "drop (116 + length code) ?F = kShStrTbl @ r"
    by (metis append_eq_conv_conj)
  have "cstring_at (kShStrTbl @ r) (sh_name (?S ! i)) = cstring_at kShStrTbl (sh_name (?S ! i))"
    using kShStrTbl_terminated [OF nm] by (intro cstring_at_append) simp_all
  then show ?thesis
    unfolding section_name_def Let_def elf_file_shoff [OF assms(2)] elf_file_shstrndx
      stroff name dr .
qed


lemma elf_file_empty_program:
  "\<exists>g. generateElfX86 sz ext junk [] = Some g
     \<and> sink g = elf_file junk ([0xb9] @ le_bytes 4 (int kBssAddr) @ elf_exit_code)"
proof -
  let ?gh = "elf_emitHeaderImpl junk GeneratorElfX86"
  have gh: "sink ?gh = uninit 52 junk @ uninit 32 junk @ uninit 32 junk @ [0xb9] @ le_bytes 4 (int kBssAddr)"
    "at_end ?gh"
    by (simp_all add: elf_emitHeaderImpl_start at_end_def)
  have l: "116 \<le> length (sink ?gh)" by (simp add: gh(1))
  have d: "drop 116 (sink ?gh) = [0xb9] @ le_bytes 4 (int kBssAddr)" by (simp add: gh(1))
  have n: "length (sink ?gh) + 32 - 116
      = length ([0xb9] @ le_bytes 4 (int kBssAddr) @ elf_exit_code)"
    by (simp add: gh(1) elf_exit_code_def)
  have "sink (elf_emitFooterImpl junk ?gh)
      = elf_file junk ([0xb9] @ le_bytes 4 (int kBssAddr) @ elf_exit_code)"
    unfolding elf_emitFooterImpl_at_end [OF gh(2) l] elf_file_def d n by simp
  then show ?thesis by (simp add: generateElfX86_def)
qed

text \<open>
  C3, as the specification states it: the four section headers appended after the code are
  the null section, \<^verbatim>\<open>.shstrtab\<close>, \<^verbatim>\<open>.text\<close> and \<^verbatim>\<open>.bss\<close>. In the file emitted for the empty
  program the name of the second section, read through the section header table and the
  string table, is \<^verbatim>\<open>.shstrtbl\<close>.
\<close>

theorem C3_section_name_counterexample:
  "section_name (sink (the (generateElfX86 4 no_ext [] []))) 1 = cstr ''.shstrtbl''
   \<and> section_name (sink (the (generateElfX86 4 no_ext [] []))) 1 \<noteq> cstr ''.shstrtab''"
proof -
  let ?code = "[0xb9] @ le_bytes 4 (int kBssAddr) @ elf_exit_code"
  from elf_file_empty_program [of 4 no_ext "[]"]
  have s: "sink (the (generateElfX86 4 no_ext [] [])) = elf_file [] ?code" by auto
  have "length ?code + 138 < 2 ^ 32" by (simp add: elf_exit_code_def)
  from elf_file_section_name [OF _ this, of 1 "[]"]
  have "section_name (elf_file [] ?code) 1 = cstr ''.shstrtbl''"
    by (simp add: sh_name_values section_names)
  with s shstrtbl_not_shstrtab show ?thesis by simp
qed

text \<open>
  C3, amended. For every well-paired IR program the byte stream of the x86 ELF backend is
  the \<^verbatim>\<open>Elf32_Ehdr\<close> at offset 0, exactly two \<^verbatim>\<open>Elf32_Phdr\<close> (a \<^verbatim>\<open>PT_LOAD\<close> segment with flags R+X
  at 0x04048000 for the code and a \<^verbatim>\<open>PT_LOAD\<close> segment with flags R+W at 0x04248000 for the
  tape), the machine code from offset \<^verbatim>\<open>sizeof(Elf32_Ehdr) + 2*sizeof(Elf32_Phdr)\<close> on, which
  is the entry point and starts by loading the tape address, and after the code the
  section name table and four section headers: the null section, \<^verbatim>\<open>.shstrtbl\<close> (as the code
  spells the name of the string table), \<^verbatim>\<open>.text\<close> and \<^verbatim>\<open>.bss\<close>.
\<close>

theorem C3_elf_layout:
  assumes "well_paired prog"
  shows "\<exists>g code.
      generateElfX86 sz ext junk prog = Some g
    \<and> sink g = ehdr_bytes (elf_header junk (length code))
         @ phdr_bytes (phdr_text (length code)) @ phdr_bytes phdr_bss
         @ code
         @ kShStrTbl
         @ shdr_bytes shdr_null @ shdr_bytes (shdr_shstrtbl (length code))
         @ shdr_bytes (shdr_text (length code)) @ shdr_bytes shdr_bss
    \<and> length (ehdr_bytes (elf_header junk (length code))) = sizeof_Ehdr
    \<and> length (phdr_bytes (phdr_text (length code))) = sizeof_Phdr
    \<and> length (phdr_bytes phdr_bss) = sizeof_Phdr
    \<and> take 5 code = [0xb9] @ le_bytes 4 0x04248000
    \<and> e_phoff (elf_header junk (length code)) = sizeof_Ehdr
    \<and> e_phnum (elf_header junk (length code)) = 2
    \<and> e_entry (elf_header junk (length code)) = 0x04048000 + (sizeof_Ehdr + 2 * sizeof_Phdr)
    \<and> e_shoff (elf_header junk (length code))
         = sizeof_Ehdr + 2 * sizeof_Phdr + length code + length kShStrTbl
    \<and> e_shnum (elf_header junk (length code)) = 4
    \<and> e_shstrndx (elf_header junk (length code)) = 1
    \<and> p_type (phdr_text (length code)) = PT_LOAD
    \<and> p_flags (phdr_text (length code)) = PF_R OR PF_X
    \<and> p_vaddr (phdr_text (length code)) = 0x04048000
    \<and> p_type phdr_bss = PT_LOAD
    \<and> p_flags phdr_bss = PF_R OR PF_W
    \<and> p_vaddr phdr_bss = 0x04248000
    \<and> map sh_type [shdr_null, shdr_shstrtbl (length code), shdr_text (length code), shdr_bss]
         = [SHT_NULL, SHT_STRTAB, SHT_PROGBITS, SHT_NOBITS]
    \<and> (length (sink g) < 2 ^ 32 \<longrightarrow>
          map (section_name (sink g)) [0, 1, 2, 3]
            = map cstr ['''', ''.shstrtbl'', ''.text'', ''.bss''])"
proof -
  from assms have "paired [] prog" by (simp add: well_paired_def)
  from elf_file_generate [OF this, of sz ext junk]
  obtain g code where g: "generateElfX86 sz ext junk prog = Some g"
      "sink g = elf_file junk code" "take 5 code = [0xb9] @ le_bytes 4 (int kBssAddr)"
    by blast
  have names: "map (section_name (sink g)) [0, 1, 2, 3]
      = map cstr ['''', ''.shstrtbl'', ''.text'', ''.bss'']" if "length (sink g) < 2 ^ 32"
  proof -
    have "length (sink g) = 298 + length code" by (simp add: g(2) elf_file_def)
    with that have small: "length code + 138 < 2 ^ 32" by simp
    have s1: "cstring_at kShStrTbl (Suc 0) = cstr ''.text''"
      using section_names(3) by simp
    show ?thesis
      using elf_file_section_name [OF _ small, of 0 junk]
        elf_file_section_name [OF _ small, of 1 junk]
        elf_file_section_name [OF _ small, of 2 junk]
        elf_file_section_name [OF _ small, of 3 junk]
      by (simp add: g(2) sh_name_values section_names s1)
  qed
  have hdr: "e_phoff (elf_header junk (length code)) = sizeof_Ehdr"
    "e_phnum (elf_header junk (length code)) = 2"
    "e_entry (elf_header junk (length code)) = 0x04048000 + (sizeof_Ehdr + 2 * sizeof_Phdr)"
    "e_shoff (elf_header junk (length code))
         = sizeof_Ehdr + 2 * sizeof_Phdr + length code + length kShStrTbl"
    "e_shnum (elf_header junk (length code)) = 4"
    "e_shstrndx (elf_header junk (length code)) = 1"
    by (simp_all add: elf_header_def kTextAddr_def kHeaderSize_def)
  have ph: "p_type (phdr_text (length code)) = PT_LOAD"
    "p_flags (phdr_text (length code)) = PF_R OR PF_X"
    "p_vaddr (phdr_text (length code)) = 0x04048000"
    "p_type phdr_bss = PT_LOAD" "p_flags phdr_bss = PF_R OR PF_W"
    "p_vaddr phdr_bss = 0x04248000"
    by (simp_all add: phdr_text_def phdr_bss_def kTextAddr_def kBssAddr_def)
  have sh: "map sh_type [shdr_null, shdr_shstrtbl (length code), shdr_text (length code), shdr_bss]
         = [SHT_NULL, SHT_STRTAB, SHT_PROGBITS, SHT_NOBITS]"
    by (simp add: shdr_null_def shdr_shstrtbl_def shdr_text_def shdr_bss_def)
  have sz: "length (ehdr_bytes (elf_header junk (length code))) = sizeof_Ehdr"
    "length (phdr_bytes (phdr_text (length code))) = sizeof_Phdr"
    "length (phdr_bytes phdr_bss) = sizeof_Phdr"
    by (simp_all add: sizeof_Ehdr_def sizeof_Phdr_def)
  have t5: "take 5 code = [0xb9] @ le_bytes 4 0x04248000"
    using g(3) by (simp add: kBssAddr_def)
  have lay: "sink g = ehdr_bytes (elf_header junk (length code))
         @ phdr_bytes (phdr_text (length code)) @ phdr_bytes phdr_bss
         @ code
         @ kShStrTbl
         @ shdr_bytes shdr_null @ shdr_bytes (shdr_shstrtbl (length code))
         @ shdr_bytes (shdr_text (length code)) @ shdr_bytes shdr_bss"
    by (simp add: g(2) elf_file_def)
  show ?thesis
    apply (rule exI [of _ g])
    apply (rule exI [of _ code])
    using g(1) lay sz t5 hdr ph sh names apply blast
    done
qed

theorem C3_empty_program_witness:
  "well_paired []
   \<and> (\<exists>g code.
      generateElfX86 4 no_ext [] [] = Some g
    \<and> sink g = ehdr_bytes (elf_header [] (length code))
         @ phdr_bytes (phdr_text (length code)) @ phdr_bytes phdr_bss
         @ code
         @ kShStrTbl
         @ shdr_bytes shdr_null @ shdr_bytes (shdr_shstrtbl (length code))
         @ shdr_bytes (shdr_text (length code)) @ shdr_bytes shdr_bss
    \<and> length (ehdr_bytes (elf_header [] (length code))) = sizeof_Ehdr
    \<and> length (phdr_bytes (phdr_text (length code))) = sizeof_Phdr
    \<and> length (phdr_bytes phdr_bss) = sizeof_Phdr
    \<and> take 5 code = [0xb9] @ le_bytes 4 0x04248000
    \<and> e_phoff (elf_header [] (length code)) = sizeof_Ehdr
    \<and> e_phnum (elf_header [] (length code)) = 2
    \<and> e_entry (elf_header [] (length code)) = 0x04048000 + (sizeof_Ehdr + 2 * sizeof_Phdr)
    \<and> e_shoff (elf_header [] (length code))
         = sizeof_Ehdr + 2 * sizeof_Phdr + length code + length kShStrTbl
    \<and> e_shnum (elf_header [] (length code)) = 4
    \<and> e_shstrndx (elf_header [] (length code)) = 1
    \<and> p_type (phdr_text (length code)) = PT_LOAD
    \<and> p_flags (phdr_text (length code)) = PF_R OR PF_X
    \<and> p_vaddr (phdr_text (length code)) = 0x04048000
    \<and> p_type phdr_bss = PT_LOAD
    \<and> p_flags phdr_bss = PF_R OR PF_W
    \<and> p_vaddr phdr_bss = 0x04248000
    \<and> map sh_type [shdr_null, shdr_shstrtbl (length code), shdr_text (length code), shdr_bss]
         = [SHT_NULL, SHT_STRTAB, SHT_PROGBITS, SHT_NOBITS]
    \<and> (length (sink g) < 2 ^ 32 \<and>
          map (section_name (sink g)) [0, 1, 2, 3]
            = map cstr ['''', ''.shstrtbl'', ''.text'', ''.bss'']))"
proof -
  have h: "well_paired []" by (simp add: well_paired_def)
  from elf_file_empty_program [of 4 no_ext "[]"]
  obtain g0 where g0: "generateElfX86 4 no_ext [] [] = Some g0"
    "sink g0 = elf_file [] ([0xb9] @ le_bytes 4 (int kBssAddr) @ elf_exit_code)" by blast
  have small: "length (sink g0) < 2 ^ 32" by (simp add: g0(2) elf_file_def elf_exit_code_def)
  from C3_elf_layout [OF h, of 4 no_ext "[]"] g0(1) small h show ?thesis
    by (metis option.inject)
qed

section \<open>Exit codes and precedence of the front end\<close>

lemma exit_code_caught: "exit_code (caught printed e) = EXIT_SUCCESS" "err (caught printed e) = what e @ nl"
  by (simp_all add: caught_def)

text \<open>
  C4. The claim: whenever a core operation fails, the process prints a diagnostic to
  standard error and exits with a non-zero code. The code at the failing inputs: when
  \<^verbatim>\<open>ap.parse\<close>, \<^verbatim>\<open>load\<close>, \<^verbatim>\<open>compile\<close> or \<^verbatim>\<open>execute\<close> throws, \<^verbatim>\<open>main\<close> prints \<^verbatim>\<open>e.what()\<close> and returns
  \<^verbatim>\<open>EXIT_SUCCESS\<close>, which is 0; an unknown target, which is reported without an exception,
  returns \<^verbatim>\<open>EXIT_FAILURE\<close>.
\<close>

theorem C4_exception_exits_with_success:
  "main env (Inl e) = caught [] e
   \<and> main (env\<lparr>c_load := failing_load e\<rparr>) (Inr (run_file ''missing.b'')) = caught [] e
   \<and> main (env\<lparr>c_load := demo_load, c_compile := failing_compile e\<rparr>)
        (Inr (run_file ''prog.b'')) = caught [] e
   \<and> main (env\<lparr>c_load := demo_load, c_compile := demo_compile,
               c_execute := failing_execute printed e\<rparr>)
        (Inr (run_file ''prog.b'')) = caught printed e
   \<and> exit_code (caught printed e) = 0
   \<and> err (caught printed e) = what e @ nl
   \<and> exit_code (main demo_core (Inr ((run_file ''prog.b'')\<lparr>opt_target := ''z80''\<rparr>))) = 1"
  by (simp add: main_def load_input_def run_file_def failing_load_def failing_compile_def
      failing_execute_def demo_load_def demo_compile_def main_execute_def caught_def
      EXIT_SUCCESS_def EXIT_FAILURE_def main_target_def targetMap_def demo_core_def finish_def)






section \<open>The emitted artifacts and the heap size option\<close>

lemma oStream_put: "oStream (put str g) = oStream g @ str"
  by (simp add: put_def)

lemma oStream_emitOp: "\<exists>t. oStream (emitOp x g) = oStream g @ t"
  by (cases x)
    (simp_all add: emitMovePointerImpl_def emitAddImpl_def emitAssignImpl_def emitPutcharImpl_def
      emitGetcharImpl_def emitLoopStartImpl_def emitLoopEndImpl_def emitIfImpl_def
      emitEndIfImpl_def emitSearchZeroImpl_def emitAddVarImpl_def emitSubVarImpl_def
      emitAddCMulVarImpl_def emitInfLoopImpl_def emitBreakPointImpl_def put_offset_def
      put_def emitIndent_def incIndent_def decIndent_def Let_def)

lemma oStream_emitOps: "\<exists>t. oStream (emitOps xs g) = oStream g @ t"
proof (induction xs arbitrary: g)
  case Nil
  then show ?case by simp
next
  case (Cons x xs)
  from oStream_emitOp [of x g] obtain t1 where t1: "oStream (emitOp x g) = oStream g @ t1" ..
  from Cons [of "emitOp x g"] obtain t2
    where "oStream (emitOps xs (emitOp x g)) = oStream (emitOp x g) @ t2" ..
  with t1 show ?case by simp
qed

lemma generateC_header:
  "\<exists>rest. oStream (generateC ind prog) =
       header_text
     @ ind @ ''unsigned char memory[MEMORY_SIZE] = {0};'' @ nl
     @ ind @ ''unsigned char *p = memory;'' @ nl @ nl @ rest"
proof -
  let ?g = "emitHeaderImpl (GeneratorC ind)"
  have h: "oStream ?g = header_text
     @ ind @ ''unsigned char memory[MEMORY_SIZE] = {0};'' @ nl
     @ ind @ ''unsigned char *p = memory;'' @ nl @ nl"
    by (simp add: emitHeaderImpl_def GeneratorC_def put_def incIndent_def)
  from oStream_emitOps [of prog ?g] obtain t
    where t: "oStream (emitOps prog ?g) = oStream ?g @ t" ..
  have "\<exists>u. oStream (emitFooterImpl (emitOps prog ?g)) = oStream (emitOps prog ?g) @ u"
    by (simp add: emitFooterImpl_def put_def)
  then obtain u where "oStream (emitFooterImpl (emitOps prog ?g)) = oStream (emitOps prog ?g) @ u" ..
  with t h show ?thesis by (simp add: generateC_def)
qed

lemma header_text_define:
  "\<exists>mid. header_text =
       ''#include <signal.h>'' @ nl @ ''#include <stdio.h>'' @ nl
     @ ''#include <stdlib.h>'' @ nl @ ''#include <string.h>'' @ nl @ nl
     @ ''#define MEMORY_SIZE 65536'' @ nl @ mid"
  by (simp add: header_text_def)

lemma elf_file_bss_header:
  "take 32 (drop 84 (elf_file junk code)) = phdr_bytes phdr_bss"
  by (simp add: elf_file_def)


lemma load_input_heap: "load_input env (ap\<lparr>opt_heap_size := h\<rparr>) = load_input env ap"
  by (simp add: load_input_def split: sum.splits)

lemma main_target_heap:
  "main_target env (ap\<lparr>opt_heap_size := h\<rparr>) src name = main_target env ap src name"
  by (simp add: main_target_def Let_def split: option.splits sum.splits)

subsection \<open>What comes before the code does not change the code\<close>

lemma drop_from:
  "M \<le> k \<Longrightarrow> drop M a = drop M b \<Longrightarrow> drop k a = drop k b"
proof -
  assume "M \<le> k" "drop M a = drop M b"
  then have "drop (k - M) (drop M a) = drop (k - M) (drop M b)" by simp
  with \<open>M \<le> k\<close> show ?thesis by simp
qed

lemma drop_take_from:
  "drop M a = drop M b \<Longrightarrow> drop M (take p a) = drop M (take p b)"
  by (simp add: drop_take)

lemma same_code_write:
  assumes "same_code M g1 g2"
  shows "same_code M (write_bytes bs g1) (write_bytes bs g2)"
proof -
  define p where "p = tellp g1"
  define s1 where "s1 = sink g1"
  define s2 where "s2 = sink g2"
  from assms have e: "tellp g2 = p" "loopStack g2 = loopStack g1"
      "length s2 = length s1" "drop M s1 = drop M s2"
      "M \<le> p" "M \<le> length s1" "list_all (\<lambda>p. M \<le> p) (loopStack g1)"
    by (auto simp: same_code_def p_def s1_def s2_def)
  have d1: "drop (p + length bs) s1 = drop (p + length bs) s2"
    by (rule drop_from [of M]) (use e(4,5) in simp_all)
  have d2: "drop M (take p s1) = drop M (take p s2)"
    using e(4) by (rule drop_take_from)
  have l1: "M \<le> length (take p s1)" "M \<le> length (take p s2)"
    using e(3,5,6) by simp_all
  have a1: "drop M (take p s1 @ bs @ drop (p + length bs) s1)
      = drop M (take p s1) @ bs @ drop (p + length bs) s1"
    using l1(1) by simp
  have a2: "drop M (take p s2 @ bs @ drop (p + length bs) s2)
      = drop M (take p s2) @ bs @ drop (p + length bs) s2"
    using l1(2) by simp
  have c4: "drop M (take p s1 @ bs @ drop (p + length bs) s1)
      = drop M (take p s2 @ bs @ drop (p + length bs) s2)"
  proof -
    have "drop M (take p s1 @ bs @ drop (p + length bs) s1)
        = drop M (take p s1) @ bs @ drop (p + length bs) s1" by (rule a1)
    also have "\<dots> = drop M (take p s2) @ bs @ drop (p + length bs) s2"
      by (simp only: d1 d2)
    also have "\<dots> = drop M (take p s2 @ bs @ drop (p + length bs) s2)"
      by (rule a2 [symmetric])
    finally show ?thesis .
  qed
  have c3: "length (take p s1 @ bs @ drop (p + length bs) s1)
      = length (take p s2 @ bs @ drop (p + length bs) s2)"
    using e(3) by simp
  have c6: "M \<le> length (take p s1 @ bs @ drop (p + length bs) s1)"
    using l1(1) by (simp only: length_append)
  have w1: "write_bytes bs g1 =
      g1\<lparr>sink := take p s1 @ bs @ drop (p + length bs) s1, tellp := p + length bs\<rparr>"
    by (simp add: write_bytes_def p_def s1_def)
  have w2: "write_bytes bs g2 =
      g2\<lparr>sink := take p s2 @ bs @ drop (p + length bs) s2, tellp := p + length bs\<rparr>"
    by (simp add: write_bytes_def e(1) s2_def)
  show ?thesis
    unfolding w1 w2 same_code_def
    using c3 c4 c6 e(2,5,7) by simp
qed

lemma same_code_push:
  assumes "same_code M g1 g2"
  shows "same_code M (g1\<lparr>loopStack := tellp g1 # loopStack g1\<rparr>)
           (g2\<lparr>loopStack := tellp g2 # loopStack g2\<rparr>)"
  using assms by (auto simp: same_code_def)

lemma same_code_patch:
  assumes "same_code M g1 g2" "M \<le> pos"
  shows "same_code M ((seekp_end (write_bytes bs (seekp pos g1)))\<lparr>loopStack := rest\<rparr>)
           ((seekp_end (write_bytes bs (seekp pos g2)))\<lparr>loopStack := rest\<rparr>)
         = list_all (\<lambda>p. M \<le> p) rest"
proof -
  from assms have "same_code M (seekp pos g1) (seekp pos g2)"
    by (auto simp: same_code_def seekp_def)
  from same_code_write [OF this, of bs] show ?thesis
    by (auto simp: same_code_def seekp_end_def)
qed

lemma same_code_stack:
  "same_code M g1 g2 \<Longrightarrow> loopStack g1 = pos # rest \<Longrightarrow>
     loopStack g2 = pos # rest \<and> tellp g2 = tellp g1 \<and> M \<le> pos \<and> list_all (\<lambda>p. M \<le> p) rest"
  by (auto simp: same_code_def)

lemma tellp_write_bytes: "tellp (write_bytes bs g) = tellp g + length bs"
  by (simp add: write_bytes_def)

lemma same_code_tellp: "same_code M g1 g2 \<Longrightarrow> tellp g2 = tellp g1"
  by (simp add: same_code_def)

lemma same_code_LoopEnd:
  assumes "same_code M g1 g2"
  shows "rel_option (same_code M) (elf_emitLoopEndImpl sz g1) (elf_emitLoopEndImpl sz g2)"
proof (cases "loopStack g1")
  case Nil
  with assms show ?thesis by (auto simp: elf_emitLoopEndImpl_def same_code_def)
next
  case (Cons pos rest)
  note st = same_code_stack [OF assms Cons]
  define J where "J g = (if int pos - int (tellp g) - 1 - 1 < - 128
      then write_bytes (le_bytes sz (int pos - int (tellp g) - 1 - 4)) (write_bytes [0xe9] g)
      else write_bytes (le_bytes 1 (int pos - int (tellp g) - 1 - 1)) (write_bytes [0xeb] g))"
    for g
  have eq: "elf_emitLoopEndImpl sz g =
      Some ((seekp_end (write_bytes (le_bytes 4 (int (tellp (J g)) - int (pos + 5) - 4))
              (seekp (pos + 5) (J g))))\<lparr>loopStack := rest\<rparr>)"
    if "loopStack g = pos # rest" for g
    using that by (simp add: elf_emitLoopEndImpl_def Let_def J_def seekp_def)
  have j: "same_code M (J g1) (J g2)"
    unfolding J_def using st by (auto intro!: same_code_write assms)
  have p: "M \<le> pos + 5" using st by simp
  from same_code_tellp [OF j] have t: "tellp (J g2) = tellp (J g1)" .
  from st have s2: "loopStack g2 = pos # rest" by simp
  show ?thesis
    unfolding eq [OF Cons] eq [OF s2] t
    using st by (simp only: option.rel_inject same_code_patch [OF j p])
qed

lemma same_code_EndIf:
  assumes "same_code M g1 g2"
  shows "rel_option (same_code M) (elf_emitEndIfImpl g1) (elf_emitEndIfImpl g2)"
proof (cases "loopStack g1")
  case Nil
  with assms show ?thesis by (auto simp: elf_emitEndIfImpl_def same_code_def)
next
  case (Cons pos rest)
  note st = same_code_stack [OF assms Cons]
  have eq: "elf_emitEndIfImpl g =
      Some ((seekp_end (write_bytes (le_bytes 4 (int (tellp g) - int (pos + 5) - 4))
              (seekp (pos + 5) g)))\<lparr>loopStack := rest\<rparr>)"
    if "loopStack g = pos # rest" for g
    using that by (simp add: elf_emitEndIfImpl_def Let_def seekp_def)
  have p: "M \<le> pos + 5" using st by simp
  from st have s2: "loopStack g2 = pos # rest" and t: "tellp g2 = tellp g1" by simp_all
  show ?thesis
    unfolding eq [OF Cons] eq [OF s2] t
    using st by (simp only: option.rel_inject same_code_patch [OF assms p])
qed

lemma same_code_LoopStart:
  assumes "same_code M g1 g2"
  shows "same_code M (elf_emitLoopStartImpl g1) (elf_emitLoopStartImpl g2)"
  unfolding elf_emitLoopStartImpl_def Let_def
  by (intro same_code_write same_code_push assms)

lemma same_code_straight:
  assumes "same_code M g1 g2"
  shows "same_code M (elf_emitMovePointerImpl d g1) (elf_emitMovePointerImpl d g2)"
    and "same_code M (elf_emitAddImpl d g1) (elf_emitAddImpl d g2)"
    and "same_code M (elf_emitAssignImpl d g1) (elf_emitAssignImpl d g2)"
    and "same_code M (elf_emitPutcharImpl g1) (elf_emitPutcharImpl g2)"
    and "same_code M (elf_emitGetcharImpl g1) (elf_emitGetcharImpl g2)"
    and "same_code M (elf_emitAddVarImpl d g1) (elf_emitAddVarImpl d g2)"
    and "same_code M (elf_emitSubVarImpl d g1) (elf_emitSubVarImpl d g2)"
    and "same_code M (elf_emitAddCMulVarImpl d k g1) (elf_emitAddCMulVarImpl d k g2)"
  by (auto simp: elf_emitMovePointerImpl_def elf_emitAddImpl_def elf_emitAssignImpl_def
      elf_emitPutcharImpl_def elf_emitGetcharImpl_def elf_emitAddVarImpl_def
      elf_emitSubVarImpl_def elf_emitAddCMulVarImpl_def Let_def
      intro!: same_code_write assms)

lemma same_code_InfLoop:
  assumes "same_code M g1 g2"
  shows "rel_option (same_code M) (elf_emitInfLoopImpl g1) (elf_emitInfLoopImpl g2)"
  unfolding elf_emitInfLoopImpl_def Let_def elf_emitIfImpl_def
  by (intro same_code_EndIf same_code_write same_code_LoopStart assms)

lemma same_code_emitOp:
  assumes "same_code M g1 g2"
  shows "rel_option (same_code M) (elf_emitOp sz ext x g1) (elf_emitOp sz ext x g2)"
  by (cases x)
    (simp_all add: same_code_straight [OF assms] same_code_LoopStart [OF assms]
      same_code_LoopEnd [OF assms] same_code_EndIf [OF assms] same_code_InfLoop [OF assms]
      same_code_write [OF assms] elf_emitIfImpl_def)

lemma same_code_emitOps:
  "same_code M g1 g2 \<Longrightarrow>
     rel_option (same_code M) (elf_emitOps sz ext xs g1) (elf_emitOps sz ext xs g2)"
proof (induction xs arbitrary: g1 g2)
  case Nil
  then show ?case by simp
next
  case (Cons x xs)
  from same_code_emitOp [OF Cons.prems, of sz ext x] show ?case
    by (cases "elf_emitOp sz ext x g1"; cases "elf_emitOp sz ext x g2") (auto intro: Cons.IH)
qed

lemma at_end_LoopEnd: "elf_emitLoopEndImpl sz g = Some g' \<Longrightarrow> at_end g'"
  by (auto simp: elf_emitLoopEndImpl_def Let_def at_end_def seekp_end_def split: list.splits)

lemma at_end_EndIf: "elf_emitEndIfImpl g = Some g' \<Longrightarrow> at_end g'"
  by (auto simp: elf_emitEndIfImpl_def Let_def at_end_def seekp_end_def split: list.splits)

lemma at_end_LoopStart: "at_end g \<Longrightarrow> at_end (elf_emitLoopStartImpl g)"
  by (simp add: elf_emitLoopStartImpl_at_end at_end_def)

lemma at_end_emitOp:
  assumes "at_end g" "elf_emitOp sz ext x g = Some g'"
  shows "at_end g'"
proof (cases x)
  case LoopEnd
  with assms show ?thesis by (simp add: at_end_LoopEnd)
next
  case IfEnd
  with assms show ?thesis by (simp add: at_end_EndIf)
next
  case InfLoop
  with assms show ?thesis by (auto simp: elf_emitInfLoopImpl_def Let_def dest: at_end_EndIf)
next
  case LoopStart
  with assms show ?thesis by (auto simp: at_end_LoopStart)
next
  case IfStart
  with assms show ?thesis by (auto simp: at_end_LoopStart elf_emitIfImpl_def)
qed (use assms appends_straight [OF assms(1)] in \<open>auto simp: appends_def\<close>)

lemma at_end_emitOps:
  "at_end g \<Longrightarrow> elf_emitOps sz ext xs g = Some g' \<Longrightarrow> at_end g'"
proof (induction xs arbitrary: g)
  case Nil
  then show ?case by simp
next
  case (Cons x xs)
  then show ?case by (auto split: option.splits dest: at_end_emitOp)
qed

subsection \<open>The file without the bytes the footer never assigns\<close>

lemma elf_file_split:
  "elf_file junk code =
     [0x7f, 0x45, 0x4c, 0x46, 1, 1, 1, 3, 0, 0] @ uninit 6 junk @ drop 16 (elf_file [] code)"
  by (simp add: elf_file_def ehdr_bytes_def elf_header_def elf_ident_def)

lemma elf_file_junk:
  "take 10 (elf_file j code) = take 10 (elf_file j' code)"
  "drop 16 (elf_file j code) = drop 16 (elf_file j' code)"
  "length (elf_file j code) = length (elf_file j' code)"
  "take 6 (drop 10 (elf_file j code)) = uninit 6 j"
proof -
  note a = elf_file_split [of j code] and b = elf_file_split [of j' code]
  show "take 10 (elf_file j code) = take 10 (elf_file j' code)"
    unfolding a b by simp
  show "drop 16 (elf_file j code) = drop 16 (elf_file j' code)"
    unfolding a b by simp
  show "length (elf_file j code) = length (elf_file j' code)"
    unfolding a b by simp
  show "take 6 (drop 10 (elf_file j code)) = uninit 6 j"
    unfolding a by simp
qed

lemma generate_two_junk:
  "(generateElfX86 sz ext j prog = None \<and> generateElfX86 sz ext j' prog = None)
   \<or> (\<exists>g g' code. generateElfX86 sz ext j prog = Some g \<and> generateElfX86 sz ext j' prog = Some g'
         \<and> sink g = elf_file j code \<and> sink g' = elf_file j' code)"
proof -
  let ?h = "elf_emitHeaderImpl j GeneratorElfX86"
  let ?h' = "elf_emitHeaderImpl j' GeneratorElfX86"
  have sc: "same_code 116 ?h ?h'"
    by (simp add: elf_emitHeaderImpl_start same_code_def)
  have ae: "at_end ?h" "at_end ?h'"
    by (simp_all add: elf_emitHeaderImpl_start at_end_def)
  note rel = same_code_emitOps [OF sc, of sz ext prog]
  show ?thesis
  proof (cases "elf_emitOps sz ext prog ?h")
    case None
    with rel have "elf_emitOps sz ext prog ?h' = None"
      by (cases "elf_emitOps sz ext prog ?h'") simp_all
    with None show ?thesis by (simp add: generateElfX86_def)
  next
    case (Some gb)
    with rel obtain gb' where gb': "elf_emitOps sz ext prog ?h' = Some gb'" "same_code 116 gb gb'"
      by (cases "elf_emitOps sz ext prog ?h'") simp_all
    from at_end_emitOps [OF ae(1) Some] at_end_emitOps [OF ae(2) gb'(1)]
    have e: "at_end gb" "at_end gb'" .
    from gb'(2) have l: "116 \<le> length (sink gb)" "116 \<le> length (sink gb')"
        "length (sink gb') = length (sink gb)" "drop 116 (sink gb') = drop 116 (sink gb)"
      by (auto simp: same_code_def)
    define code where "code = drop 116 (sink gb) @ elf_exit_code"
    have lc: "length code = length (sink gb) + 32 - 116"
      using l(1) by (simp add: code_def elf_exit_code_def)
    have lc': "length code = length (sink gb') + 32 - 116"
      using lc l(3) by simp
    have c': "code = drop 116 (sink gb') @ elf_exit_code"
      by (simp add: code_def l(4))
    have sf: "sink (elf_emitFooterImpl j gb) = elf_file j code"
      unfolding elf_emitFooterImpl_at_end [OF e(1) l(1)] elf_file_def lc [symmetric]
      by (simp add: code_def)
    have sf': "sink (elf_emitFooterImpl j' gb') = elf_file j' code"
      unfolding elf_emitFooterImpl_at_end [OF e(2) l(2)] elf_file_def lc' [symmetric]
      by (simp add: c')
    from Some gb'(1) sf sf' show ?thesis
      by (auto simp: generateElfX86_def)
  qed
qed

lemma emit_c_junk: "emit (env\<lparr>c_junk := j\<rparr>) kC prog = emit env kC prog"
  by (simp add: emit_def)

lemma emit_elf_junk:
  "\<exists>b b'. emit env kElfX86 prog = BinaryFile b
      \<and> emit (env\<lparr>c_junk := j\<rparr>) kElfX86 prog = BinaryFile b'
      \<and> length b' = length b \<and> take 10 b' = take 10 b \<and> drop 16 b' = drop 16 b
      \<and> (well_paired prog \<longrightarrow>
            take 6 (drop 10 b) = uninit 6 (c_junk env) \<and> take 6 (drop 10 b') = uninit 6 j)"
proof -
  note two = generate_two_junk [of "c_size_t env" "c_ext env" "c_junk env" prog j]
  show ?thesis
  proof (cases "generateElfX86 (c_size_t env) (c_ext env) (c_junk env) prog")
    case None
    with two have n': "generateElfX86 (c_size_t env) (c_ext env) j prog = None" by auto
    have "\<not> well_paired prog"
    proof
      assume "well_paired prog"
      then have "paired [] prog" by (simp add: well_paired_def)
      from elf_file_generate [OF this, of "c_size_t env" "c_ext env" "c_junk env"] None
      show False by auto
    qed
    with None n' show ?thesis by (simp add: emit_def)
  next
    case (Some g)
    with two obtain g' code where some: "generateElfX86 (c_size_t env) (c_ext env) j prog = Some g'"
        "sink g = elf_file (c_junk env) code" "sink g' = elf_file j code"
      by auto
    note f = elf_file_junk(1-3) [of j code "c_junk env"] elf_file_junk(4) [of j code]
      elf_file_junk(4) [of "c_junk env" code]
    from Some some f show ?thesis by (simp add: emit_def)
  qed
qed

lemma emit_blank:
  "t = kC \<or> t = kElfX86 \<Longrightarrow>
     blank_ident (emit (env\<lparr>c_junk := j\<rparr>) t prog) = blank_ident (emit env t prog)"
  using emit_elf_junk [where env = env and prog = prog and j = j]
  by (auto simp: emit_c_junk blank_ident_def)

lemma targetMap_c: "targetMap ''c'' = Some kC" "targetMap ''elfx86'' = Some kElfX86"
  by (simp_all add: targetMap_def)

subsection \<open>Two runs of the front end\<close>

lemma load_input_junk: "load_input (env\<lparr>c_junk := j\<rparr>) ap = load_input env ap"
  by (simp add: load_input_def)

lemma main_target_c_junk:
  assumes "opt_target ap = ''c''"
  shows "main_target (env\<lparr>c_junk := j\<rparr>) ap src name = main_target env ap src name"
  using assms by (simp add: main_target_def targetMap_c emit_c_junk Let_def split: sum.splits)

lemma main_target_elf_junk:
  assumes "opt_target ap = ''elfx86''"
  shows "blank_files (main_target (env\<lparr>c_junk := j\<rparr>) ap src name)
       = blank_files (main_target env ap src name)"
proof (cases "c_compile env kJit (opt_top_break_point ap) src")
  case (Inl e)
  with assms show ?thesis by (simp add: main_target_def targetMap_c)
next
  case (Inr code)
  note b = emit_blank [where t = kElfX86 and env = env and j = j and prog = code]
  from Inr assms b show ?thesis
    by (simp add: main_target_def targetMap_c blank_files_def Let_def finish_def)
qed

lemma main_heap:
  assumes "opt_target ap \<noteq> []"
  shows "main env (Inr (ap\<lparr>opt_heap_size := h\<rparr>)) = main env (Inr ap)"
  using assms
  by (simp add: main_def load_input_heap main_target_heap Let_def
      split: sum.splits option.splits prod.splits)

lemma main_junk:
  assumes "opt_target ap \<noteq> []"
    and "\<And>src name. f (main_target (env\<lparr>c_junk := j\<rparr>) ap src name) = f (main_target env ap src name)"
  shows "f (main (env\<lparr>c_junk := j\<rparr>) (Inr ap)) = f (main env (Inr ap))"
proof -
  show ?thesis
  proof (cases "load_input env ap")
    case (Inl e)
    then show ?thesis by (simp add: main_def load_input_junk)
  next
    case (Inr v)
    show ?thesis
    proof (cases v)
      case None
      with Inr show ?thesis by (simp add: main_def load_input_junk)
    next
      case (Some p)
      with Inr assms(1,2) show ?thesis
        by (cases p) (simp add: main_def load_input_junk Let_def split: sum.splits)
    qed
  qed
qed

lemma main_c_junk:
  assumes "opt_target ap = ''c''"
  shows "main (env\<lparr>c_junk := j\<rparr>) (Inr (ap\<lparr>opt_heap_size := h\<rparr>)) = main env (Inr ap)"
proof -
  from assms have t: "opt_target ap \<noteq> []" by simp
  from main_junk [where f = "\<lambda>r. r" and ap = ap and env = env and j = j, OF t]
    main_target_c_junk [OF assms]
  have "main (env\<lparr>c_junk := j\<rparr>) (Inr ap) = main env (Inr ap)" by simp
  moreover from t have "opt_target (ap\<lparr>opt_heap_size := h\<rparr>) \<noteq> []" by simp
  ultimately show ?thesis
    using main_heap [OF t, of "env\<lparr>c_junk := j\<rparr>" h] by simp
qed

lemma main_elf_junk:
  assumes "opt_target ap = ''elfx86''"
  shows "blank_files (main (env\<lparr>c_junk := j\<rparr>) (Inr (ap\<lparr>opt_heap_size := h\<rparr>)))
       = blank_files (main env (Inr ap))"
proof -
  from assms have t: "opt_target ap \<noteq> []" by simp
  from main_junk [where f = blank_files and ap = ap and env = env and j = j, OF t]
    main_target_elf_junk [OF assms]
  have "blank_files (main (env\<lparr>c_junk := j\<rparr>) (Inr ap)) = blank_files (main env (Inr ap))"
    by simp
  then show ?thesis
    using main_heap [OF t, of "env\<lparr>c_junk := j\<rparr>" h] by simp
qed

text \<open>
  C8. No heap size reaches \<^verbatim>\<open>emit\<close>, and the artifacts hard-code a tape of 65536 cells: the C
  text defines \<^verbatim>\<open>MEMORY_SIZE\<close> as 65536 and declares \<^verbatim>\<open>memory[MEMORY_SIZE]\<close>; the second program
  header of the x86 ELF file, at offset 84, is the tape segment with a memory size of
  0x00010000 bytes, the size the \<^verbatim>\<open>.bss\<close> section header repeats. Of two runs that differ in the
  heap size, and in what the memory of the process holds, those with the target \<^verbatim>\<open>c\<close> have
  the same outcome, the file included. Those with the target \<^verbatim>\<open>elfx86\<close> have the same outcome
  but for the bytes 10 to 15 of the file: the footer writes the whole \<^verbatim>\<open>Elf32_Ehdr\<close> and has
  assigned \<^verbatim>\<open>e_ident[0]\<close> to \<^verbatim>\<open>e_ident[9]\<close> only, so these six bytes are what the memory held, and
  the two files are of the same length and agree at every other offset.
\<close>

theorem C8_outputs_agree_but_for_unassigned_ident:
  "(opt_target ap = ''c'' \<longrightarrow>
      main (env\<lparr>c_junk := j\<rparr>) (Inr (ap\<lparr>opt_heap_size := h\<rparr>)) = main env (Inr ap))
   \<and> (opt_target ap = ''elfx86'' \<longrightarrow>
        blank_files (main (env\<lparr>c_junk := j\<rparr>) (Inr (ap\<lparr>opt_heap_size := h\<rparr>)))
          = blank_files (main env (Inr ap)))
   \<and> emit (env\<lparr>c_junk := j\<rparr>) kC prog = emit env kC prog
   \<and> (\<exists>b b'. emit env kElfX86 prog = BinaryFile b
          \<and> emit (env\<lparr>c_junk := j\<rparr>) kElfX86 prog = BinaryFile b'
          \<and> length b' = length b \<and> take 10 b' = take 10 b \<and> drop 16 b' = drop 16 b
          \<and> (well_paired prog \<longrightarrow>
                take 6 (drop 10 b) = uninit 6 (c_junk env)
              \<and> take 6 (drop 10 b') = uninit 6 j
              \<and> take 32 (drop 84 b) = phdr_bytes phdr_bss))
   \<and> (\<exists>mid rest. oStream (generateC ind prog) =
          ''#include <signal.h>'' @ nl @ ''#include <stdio.h>'' @ nl
        @ ''#include <stdlib.h>'' @ nl @ ''#include <string.h>'' @ nl @ nl
        @ ''#define MEMORY_SIZE 65536'' @ nl @ mid
        @ ind @ ''unsigned char memory[MEMORY_SIZE] = {0};'' @ nl
        @ ind @ ''unsigned char *p = memory;'' @ nl @ nl @ rest)
   \<and> p_memsz phdr_bss = 0x00010000 \<and> p_filesz phdr_bss = 0
   \<and> sh_size shdr_bss = 0x00010000"
proof -
  have a: "main (env\<lparr>c_junk := j\<rparr>) (Inr (ap\<lparr>opt_heap_size := h\<rparr>)) = main env (Inr ap)"
    if "opt_target ap = ''c''"
    using that by (rule main_c_junk)
  have b: "blank_files (main (env\<lparr>c_junk := j\<rparr>) (Inr (ap\<lparr>opt_heap_size := h\<rparr>)))
          = blank_files (main env (Inr ap))" if "opt_target ap = ''elfx86''"
    using that by (rule main_elf_junk)
  have c: "emit (env\<lparr>c_junk := j\<rparr>) kC prog = emit env kC prog"
    by (rule emit_c_junk)
  from emit_elf_junk [where env = env and prog = prog and j = j]
  obtain b b' where e: "emit env kElfX86 prog = BinaryFile b"
      "emit (env\<lparr>c_junk := j\<rparr>) kElfX86 prog = BinaryFile b'"
      "length b' = length b" "take 10 b' = take 10 b" "drop 16 b' = drop 16 b"
      "well_paired prog \<longrightarrow>
         take 6 (drop 10 b) = uninit 6 (c_junk env) \<and> take 6 (drop 10 b') = uninit 6 j"
    by blast
  have p: "take 32 (drop 84 b) = phdr_bytes phdr_bss" if "well_paired prog"
  proof -
    from that have "paired [] prog" by (simp add: well_paired_def)
    from elf_file_generate [OF this, of "c_size_t env" "c_ext env" "c_junk env"] e(1)
    show ?thesis by (auto simp: emit_def elf_file_bss_header)
  qed
  from generateC_header [of ind prog] header_text_define
  have d: "\<exists>mid rest. oStream (generateC ind prog) =
          ''#include <signal.h>'' @ nl @ ''#include <stdio.h>'' @ nl
        @ ''#include <stdlib.h>'' @ nl @ ''#include <string.h>'' @ nl @ nl
        @ ''#define MEMORY_SIZE 65536'' @ nl @ mid
        @ ind @ ''unsigned char memory[MEMORY_SIZE] = {0};'' @ nl
        @ ind @ ''unsigned char *p = memory;'' @ nl @ nl @ rest"
    by (metis append.assoc)
  have f: "p_memsz phdr_bss = 0x00010000" "p_filesz phdr_bss = 0" "sh_size shdr_bss = 0x00010000"
    by (simp_all add: phdr_bss_def shdr_bss_def)
  from e p have g: "\<exists>b b'. emit env kElfX86 prog = BinaryFile b
          \<and> emit (env\<lparr>c_junk := j\<rparr>) kElfX86 prog = BinaryFile b'
          \<and> length b' = length b \<and> take 10 b' = take 10 b \<and> drop 16 b' = drop 16 b
          \<and> (well_paired prog \<longrightarrow>
                take 6 (drop 10 b) = uninit 6 (c_junk env)
              \<and> take 6 (drop 10 b') = uninit 6 j
              \<and> take 32 (drop 84 b) = phdr_bytes phdr_bss)"
    by blast
  from a b c g d f show ?thesis by blast
qed

theorem C8_two_runs_witness:
  "opt_target ((run_file ''prog.b'')\<lparr>opt_target := ''c''\<rparr>) = ''c''
   \<and> main (demo_core\<lparr>c_junk := [1]\<rparr>)
        (Inr ((run_file ''prog.b'')\<lparr>opt_target := ''c'', opt_heap_size := 16\<rparr>))
       = main demo_core (Inr ((run_file ''prog.b'')\<lparr>opt_target := ''c''\<rparr>))
   \<and> files (main demo_core (Inr ((run_file ''prog.b'')\<lparr>opt_target := ''c''\<rparr>)))
       = [(''prog.c'', TextFile (oStream (generateC ''  '' [Add 1, Putchar])))]
   \<and> opt_target ((run_file ''prog.b'')\<lparr>opt_target := ''elfx86''\<rparr>) = ''elfx86''
   \<and> blank_files (main (demo_core\<lparr>c_junk := [1]\<rparr>)
        (Inr ((run_file ''prog.b'')\<lparr>opt_target := ''elfx86'', opt_heap_size := 16\<rparr>)))
       = blank_files (main demo_core (Inr ((run_file ''prog.b'')\<lparr>opt_target := ''elfx86''\<rparr>)))
   \<and> well_paired [Add 1, Putchar]
   \<and> emit (demo_core\<lparr>c_junk := [1]\<rparr>) kElfX86 [Add 1, Putchar]
       \<noteq> emit demo_core kElfX86 [Add 1, Putchar]"
proof -
  let ?c = "(run_file ''prog.b'')\<lparr>opt_target := ''c''\<rparr>"
  let ?e = "(run_file ''prog.b'')\<lparr>opt_target := ''elfx86''\<rparr>"
  have h1: "opt_target ?c = ''c''" and h2: "opt_target ?e = ''elfx86''" by simp_all
  have h3: "well_paired [Add 1, Putchar]" by (simp add: well_paired_def)
  note tc = C8_outputs_agree_but_for_unassigned_ident [where env = demo_core and ap = ?c
      and h = 16 and j = "[1]" and prog = "[Add 1, Putchar]"]
  note te = C8_outputs_agree_but_for_unassigned_ident [where env = demo_core and ap = ?e
      and h = 16 and j = "[1]" and prog = "[Add 1, Putchar]"]
  from conjunct1 [OF tc] h1
  have "main (demo_core\<lparr>c_junk := [1]\<rparr>) (Inr (?c\<lparr>opt_heap_size := 16\<rparr>)) = main demo_core (Inr ?c)"
    by blast
  then have m: "main (demo_core\<lparr>c_junk := [1]\<rparr>)
        (Inr ((run_file ''prog.b'')\<lparr>opt_target := ''c'', opt_heap_size := 16\<rparr>))
       = main demo_core (Inr ?c)" by simp
  have f: "files (main demo_core (Inr ?c))
       = [(''prog.c'', TextFile (oStream (generateC ''  '' [Add 1, Putchar])))]"
    by (simp add: main_def load_input_def run_file_def demo_core_def demo_load_def
        main_target_def targetMap_def demo_compile_def demo_can_open_def emit_def
        getDefaultOutputName_def removeSuffix_def removeDirectoryPart_def)
  from conjunct1 [OF conjunct2 [OF te]] h2
  have "blank_files (main (demo_core\<lparr>c_junk := [1]\<rparr>) (Inr (?e\<lparr>opt_heap_size := 16\<rparr>)))
      = blank_files (main demo_core (Inr ?e))"
    by blast
  then have n: "blank_files (main (demo_core\<lparr>c_junk := [1]\<rparr>)
        (Inr ((run_file ''prog.b'')\<lparr>opt_target := ''elfx86'', opt_heap_size := 16\<rparr>)))
       = blank_files (main demo_core (Inr ?e))" by simp
  from conjunct1 [OF conjunct2 [OF conjunct2 [OF conjunct2 [OF te]]]] h3
  obtain b b' where e: "emit demo_core kElfX86 [Add 1, Putchar] = BinaryFile b"
      "emit (demo_core\<lparr>c_junk := [1]\<rparr>) kElfX86 [Add 1, Putchar] = BinaryFile b'"
      "take 6 (drop 10 b) = uninit 6 (c_junk demo_core)" "take 6 (drop 10 b') = uninit 6 [1]"
    by blast
  have "uninit 6 (c_junk demo_core) \<noteq> uninit 6 [1]"
    by (simp add: uninit_def demo_core_def eval_nat_numeral)
  with e have d: "emit (demo_core\<lparr>c_junk := [1]\<rparr>) kElfX86 [Add 1, Putchar]
       \<noteq> emit demo_core kElfX86 [Add 1, Putchar]"
    by auto
  from h1 m f h2 n h3 d show ?thesis by blast
qed

section \<open>The emitted C program and the interpreter\<close>

lemma bounds_eq: "in_bounds MEMORY_SIZE p = c_deref_ok p"
  by (simp add: in_bounds_def c_deref_ok_def)

lemma deref_ptr_ok: "c_deref_ok p \<Longrightarrow> c_ptr_ok p"
  by (simp add: c_deref_ok_def c_ptr_ok_def)

lemma c_lines_simps [simp]:
  "c_lines [] = []"
  "c_lines (x # xs) = expand x @ c_lines xs"
  by (simp_all add: c_lines_def)

lemma c_lines_rev_simps [simp]:
  "c_lines_rev [] = []"
  "c_lines_rev (x # xs) = rev (expand x) @ c_lines_rev xs"
  by (simp_all add: c_lines_rev_def)

lemma expand_plain:
  "ir_class x = BPlain \<Longrightarrow> x \<noteq> InfLoop \<Longrightarrow> \<exists>y. expand x = [y] \<and> c_class y = BPlain"
  by (cases x) auto

lemma skip_fwd_lines:
  "skip_fwd c_class d (c_lines_rev bs) (c_lines xs) =
     map_option (\<lambda>(b, a). (c_lines_rev b, c_lines a)) (skip_fwd ir_class d bs xs)"
proof (induction xs arbitrary: d bs)
  case Nil
  then show ?case by simp
next
  case (Cons x xs)
  show ?case
  proof (cases "ir_class x")
    case BOpen
    then have "expand x = [CWhile] \<or> expand x = [CIf]" by (cases x) auto
    with BOpen Cons [of "Suc d" "x # bs"] show ?thesis by auto
  next
    case BClose
    then have "expand x = [CClose]" by (cases x) auto
    with BClose Cons [of "d - 1" "x # bs"] show ?thesis by auto
  next
    case BPlain
    show ?thesis
    proof (cases "x = InfLoop")
      case True
      with Cons [of d "x # bs"] show ?thesis by simp
    next
      case False
      from expand_plain [OF BPlain False] obtain y where "expand x = [y]" "c_class y = BPlain"
        by blast
      with BPlain Cons [of d "x # bs"] show ?thesis by simp
    qed
  qed
qed

lemma skip_bwd_lines:
  "skip_bwd c_class d (c_lines_rev bs) (c_lines xs) =
     map_option (\<lambda>(opener, b, a). (hd (expand opener), c_lines_rev b, c_lines a))
       (skip_bwd ir_class d bs xs)"
proof (induction bs arbitrary: d xs)
  case Nil
  then show ?case by simp
next
  case (Cons x bs)
  show ?case
  proof (cases "ir_class x")
    case BOpen
    then have "expand x = [CWhile] \<or> expand x = [CIf]" by (cases x) auto
    with BOpen Cons [of "d - 1" "x # xs"] show ?thesis by auto
  next
    case BClose
    then have "expand x = [CClose]" by (cases x) auto
    with BClose Cons [of "Suc d" "x # xs"] show ?thesis by auto
  next
    case BPlain
    show ?thesis
    proof (cases "x = InfLoop")
      case True
      with Cons [of d "x # xs"] show ?thesis by simp
    next
      case False
      from expand_plain [OF BPlain False] obtain y where "expand x = [y]" "c_class y = BPlain"
        by blast
      with BPlain Cons [of d "x # xs"] show ?thesis by simp
    qed
  qed
qed

lemma c_for_scan_eq: "c_for_scan t p d = search_zero MEMORY_SIZE t p d"
proof (induction "MEMORY_SIZE" t p d rule: search_zero.induct)
  case (1 t p d)
  show ?case
  proof (cases "d = 0 \<or> \<not> in_bounds MEMORY_SIZE p \<or> t p = 0")
    case True
    then show ?thesis
      by (subst c_for_scan.simps, subst search_zero.simps) (auto simp: bounds_eq)
  next
    case False
    then have ih: "c_for_scan t (p + d) d = search_zero MEMORY_SIZE t (p + d) d"
      using 1 by simp
    show ?thesis
    proof (cases "c_ptr_ok (p + d)")
      case True
      with False ih show ?thesis
        by (subst c_for_scan.simps, subst search_zero.simps) (auto simp: bounds_eq)
    next
      case n: False
      then have "\<not> in_bounds MEMORY_SIZE (p + d)"
        by (auto simp: in_bounds_def c_ptr_ok_def)
      then have "search_zero MEMORY_SIZE t (p + d) d = None"
        by (subst search_zero.simps) simp
      with False n show ?thesis
        by (subst c_for_scan.simps, subst search_zero.simps) (auto simp: bounds_eq)
    qed
  qed
qed

lemma memchr_eq:
  "find (\<lambda>i. t i = 0) [p..int MEMORY_SIZE - 1] =
     (if p < int MEMORY_SIZE \<and> p < 0 then find (\<lambda>i. t i = 0) [p..int MEMORY_SIZE - 1]
      else search_zero MEMORY_SIZE t p 1)"
proof (induction "nat (int MEMORY_SIZE - p)" arbitrary: p)
  case 0
  then have "\<not> in_bounds MEMORY_SIZE p" "[p..int MEMORY_SIZE - 1] = []"
    by (auto simp: in_bounds_def)
  then show ?case by (subst search_zero.simps) simp
next
  case (Suc n)
  then have lt: "p < int MEMORY_SIZE" by linarith
  show ?case
  proof (cases "p < 0")
    case True
    with lt show ?thesis by simp
  next
    case False
    with lt have ib: "in_bounds MEMORY_SIZE p" by (simp add: in_bounds_def)
    from lt have up: "[p..int MEMORY_SIZE - 1] = p # [p + 1..int MEMORY_SIZE - 1]"
      by (simp add: upto_rec1)
    from Suc(2) have "n = nat (int MEMORY_SIZE - (p + 1))" by linarith
    from Suc(1) [OF this] False
    have ih: "find (\<lambda>i. t i = 0) [p + 1..int MEMORY_SIZE - 1] = search_zero MEMORY_SIZE t (p + 1) 1"
      by (auto split: if_splits)
    from ib ih up False show ?thesis
      by (subst search_zero.simps) simp
  qed
qed

lemma search_zero_here:
  "in_bounds heap_size p \<Longrightarrow> t p = 0 \<Longrightarrow> d \<noteq> 0 \<Longrightarrow> search_zero heap_size t p d = Some p"
  by (subst search_zero.simps) simp

subsection \<open>The C program follows the interpreter step by step\<close>

lemma uint_bounds: "0 \<le> uint (c :: u8)" "uint c < 256"
  using uint_lt2p [of c] by simp_all

lemma c_int_ok_eq: "c_int_ok v = (- 2147483648 \<le> v \<and> v < 2147483648)"
  by (simp add: c_int_ok_def)

lemma operand_ok_eq: "operand_ok v = (- 4194304 < v \<and> v < 4194304)"
  by (simp add: operand_ok_def)

lemma add_int_ok:
  "operand_ok v \<Longrightarrow> c_int_ok (uint (c :: u8) + v) \<and> c_int_ok (uint c - v)"
  using uint_bounds [of c] unfolding c_int_ok_eq operand_ok_eq by linarith

lemma var_int_ok:
  "c_int_ok (uint (c :: u8) + uint (d :: u8)) \<and> c_int_ok (uint c - uint d)"
  using uint_bounds [of c] uint_bounds [of d] unfolding c_int_ok_eq by linarith

lemma mul_int_ok:
  assumes "operand_ok k"
  shows "c_int_ok (uint (a :: u8) * k) \<and> c_int_ok (uint (c :: u8) + uint a * k)"
proof -
  note a = uint_bounds [of a] and c = uint_bounds [of c]
  from assms have k: "- 4194304 < k" "k < 4194304" by (simp_all add: operand_ok_eq)
  have hi: "uint a * k \<le> 1069547520"
  proof (cases "0 \<le> k")
    case True
    with a have "uint a * k \<le> 255 * k" by (intro mult_right_mono) simp_all
    with k show ?thesis by linarith
  next
    case False
    with a have "uint a * k \<le> 0" by (simp add: mult_nonneg_nonpos)
    then show ?thesis by linarith
  qed
  have lo: "- 1069547520 \<le> uint a * k"
  proof (cases "0 \<le> k")
    case True
    with a have "0 \<le> uint a * k" by simp
    then show ?thesis by linarith
  next
    case False
    with a have "255 * k \<le> uint a * k" by (intro mult_right_mono_neg) simp_all
    with k show ?thesis by linarith
  qed
  from hi lo c show ?thesis unfolding c_int_ok_eq by linarith
qed

lemma small_int_ok: "operand_ok v \<Longrightarrow> c_int_ok v"
  unfolding c_int_ok_eq operand_ok_eq by linarith

lemma getchar_int_ok: "c_int_ok (- 1)" "c_int_ok (uint (b :: u8))" "c_int_ok (uint b + 1)"
    "c_int_ok (uint b - 1)"
  using uint_bounds [of b] unfolding c_int_ok_eq by linarith+

lemma word8_minus1: "(word_of_int (- 1) :: u8) = 255"
  by simp

lemma step_sim:
  assumes nf: "execute_step MEMORY_SIZE eof_255 s \<noteq> Failed"
    and ns: "\<not> spinning MEMORY_SIZE s"
    and ok: "\<forall>x \<in> set (after s). operands_ok x"
  shows "c_step (c_of s) = c_result (execute_step MEMORY_SIZE eof_255 s)"
proof (cases "after s")
  case Nil
  then show ?thesis by (simp add: c_step_def execute_step_def c_of_def)
next
  case (Cons x rest)
  show ?thesis
  proof (cases x)
    case (MovePtr d)
    with Cons nf show ?thesis
      by (auto simp: c_step_def execute_step_def c_of_def c_move_def advance_def bounds_eq
          deref_ptr_ok split: if_splits)
  next
    case (Add v)
    with Cons ok have "operand_ok v" by simp
    note add_int_ok [OF this, of "tape s (ptr s)"] getchar_int_ok(3,4) [of "tape s (ptr s)"]
    with Add Cons nf show ?thesis
      by (auto simp: c_step_def execute_step_def c_of_def c_assign_def ir_update_def advance_def
          store_def bounds_eq deref_ptr_ok split: if_splits)
  next
    case (Assign v)
    with Cons ok have "c_int_ok v" by (simp add: small_int_ok)
    with Assign Cons nf show ?thesis
      by (auto simp: c_step_def execute_step_def c_of_def c_assign_def ir_update_def advance_def
          store_def bounds_eq deref_ptr_ok split: if_splits)
  next
    case Putchar
    with Cons nf show ?thesis
      by (auto simp: c_step_def execute_step_def c_of_def advance_def bounds_eq split: if_splits)
  next
    case Getchar
    with Cons nf show ?thesis
      by (auto simp: c_step_def execute_step_def c_of_def c_assign_def ir_update_def advance_def
          store_def bounds_eq deref_ptr_ok c_getchar_def EOF_def eof_255_def getchar_int_ok
          split: if_splits list.splits)
  next
    case LoopStart
    from skip_fwd_lines [of 0 "LoopStart # before s" rest]
    have sk: "skip_fwd c_class 0 (CWhile # c_lines_rev (before s)) (c_lines rest) =
       map_option (\<lambda>(b, a). (c_lines_rev b, c_lines a)) (skip_fwd ir_class 0 (LoopStart # before s) rest)"
      by simp
    from LoopStart Cons nf show ?thesis
      by (auto simp: c_step_def execute_step_def c_of_def advance_def bounds_eq c_jump_fwd_def
          ir_jump_fwd_def sk split: if_splits option.splits)
  next
    case IfStart
    from skip_fwd_lines [of 0 "IfStart # before s" rest]
    have sk: "skip_fwd c_class 0 (CIf # c_lines_rev (before s)) (c_lines rest) =
       map_option (\<lambda>(b, a). (c_lines_rev b, c_lines a)) (skip_fwd ir_class 0 (IfStart # before s) rest)"
      by simp
    from IfStart Cons nf show ?thesis
      by (auto simp: c_step_def execute_step_def c_of_def advance_def bounds_eq c_jump_fwd_def
          ir_jump_fwd_def sk split: if_splits option.splits)
  next
    case LoopEnd
    from skip_bwd_lines [of 0 "before s" "LoopEnd # rest"]
    have sk: "skip_bwd c_class 0 (c_lines_rev (before s)) (CClose # c_lines rest) =
       map_option (\<lambda>(opener, b, a). (hd (expand opener), c_lines_rev b, c_lines a))
         (skip_bwd ir_class 0 (before s) (LoopEnd # rest))"
      by simp
    from LoopEnd Cons nf show ?thesis
      by (auto simp: c_step_def execute_step_def c_of_def advance_def bounds_eq sk
          split: if_splits option.splits)
  next
    case IfEnd
    from skip_bwd_lines [of 0 "before s" "IfEnd # rest"]
    have sk: "skip_bwd c_class 0 (c_lines_rev (before s)) (CClose # c_lines rest) =
       map_option (\<lambda>(opener, b, a). (hd (expand opener), c_lines_rev b, c_lines a))
         (skip_bwd ir_class 0 (before s) (IfEnd # rest))"
      by simp
    from IfEnd Cons nf show ?thesis
      by (auto simp: c_step_def execute_step_def c_of_def advance_def bounds_eq sk
          split: if_splits option.splits)
  next
    case (SearchZero d)
    with Cons nf show ?thesis
      by (auto simp: c_step_def execute_step_def c_of_def advance_def bounds_eq c_scan_def
          c_memchr_def c_for_scan_eq memchr_eq [of _ "ptr s"] c_deref_ok_def
          search_zero_here [of MEMORY_SIZE "ptr s" "tape s" 1, unfolded in_bounds_def]
          split: if_splits option.splits)
  next
    case (AddVar off)
    note var_int_ok [of "tape s (ptr s + off)" "tape s (ptr s)"]
    with AddVar Cons nf show ?thesis
      by (auto simp: c_step_def execute_step_def c_of_def c_assign_def ir_update_def advance_def
          store_def bounds_eq deref_ptr_ok c_place_def split: if_splits)
  next
    case (SubVar off)
    note var_int_ok [of "tape s (ptr s + off)" "tape s (ptr s)"]
    with SubVar Cons nf show ?thesis
      by (auto simp: c_step_def execute_step_def c_of_def c_assign_def ir_update_def advance_def
          store_def bounds_eq deref_ptr_ok c_place_def split: if_splits)
  next
    case (AddMulVar off k)
    with Cons ok have "operand_ok k" by simp
    note mul_int_ok [OF this, of "tape s (ptr s)" "tape s (ptr s + off)"]
    with AddMulVar Cons nf show ?thesis
      by (auto simp: c_step_def execute_step_def c_of_def c_assign_def ir_update_def advance_def
          store_def bounds_eq deref_ptr_ok c_place_def split: if_splits)
  next
    case InfLoop
    with Cons nf ns show ?thesis
      by (auto simp: c_step_def execute_step_def c_of_def advance_def bounds_eq c_jump_fwd_def
          spinning_def split: if_splits)
  next
    case BreakPoint
    with Cons nf show ?thesis
      by (auto simp: c_step_def execute_step_def c_of_def)
  qed
qed

lemma spin_ir:
  "spinning heap_size s \<Longrightarrow> run (execute_step heap_size eof) n s = Running s"
proof (induction n)
  case 0
  then show ?case by simp
next
  case (Suc n)
  from Suc.prems have "execute_step heap_size eof s = Running s"
    by (cases "after s") (auto simp: spinning_def execute_step_def)
  with Suc show ?case by simp
qed

lemma spin_c_in: "run c_step n (c_in s) = Running (c_in s)"
proof (induction n)
  case 0
  then show ?case by simp
next
  case (Suc n)
  have "c_step (c_in s) = Running (c_in s)"
    by (simp add: c_step_def c_in_def)
  with Suc show ?case by simp
qed

lemma spin_c:
  assumes "spinning MEMORY_SIZE s"
  shows "run c_step (Suc n) (c_of s) = Running (c_in s)"
proof -
  from assms have "c_step (c_of s) = Running (c_in s)"
    by (cases "after s")
       (auto simp: spinning_def c_step_def c_of_def c_in_def advance_def bounds_eq)
  then show ?thesis by (simp add: spin_c_in)
qed

subsection \<open>A run leaves the program as it is\<close>

lemma skip_fwd_prog:
  "skip_fwd cls d bs xs = Some (b, a) \<Longrightarrow> rev b @ a = rev bs @ xs"
proof (induction xs arbitrary: d bs)
  case Nil
  then show ?case by simp
next
  case (Cons x xs)
  show ?case
  proof (cases "cls x")
    case BOpen
    with Cons.prems Cons.IH [of "Suc d" "x # bs"] show ?thesis by simp
  next
    case BClose
    with Cons.prems Cons.IH [of "d - 1" "x # bs"] show ?thesis by (auto split: if_splits)
  next
    case BPlain
    with Cons.prems Cons.IH [of d "x # bs"] show ?thesis by simp
  qed
qed

lemma skip_bwd_prog:
  "skip_bwd cls d bs xs = Some (opener, b, a) \<Longrightarrow> rev b @ a = rev bs @ xs"
proof (induction bs arbitrary: d xs)
  case Nil
  then show ?case by simp
next
  case (Cons x bs)
  show ?case
  proof (cases "cls x")
    case BOpen
    with Cons.prems Cons.IH [of "d - 1" "x # xs"] show ?thesis by (auto split: if_splits)
  next
    case BClose
    with Cons.prems Cons.IH [of "Suc d" "x # xs"] show ?thesis by simp
  next
    case BPlain
    with Cons.prems Cons.IH [of d "x # xs"] show ?thesis by simp
  qed
qed

lemma prog_advance:
  "after t \<noteq> [] \<Longrightarrow> rev (before (advance t)) @ after (advance t) = rev (before t) @ after t"
  by (cases "after t") (simp_all add: advance_def)

lemma prog_update:
  "ir_update heap_size off f s = Running s' \<Longrightarrow> after s \<noteq> [] \<Longrightarrow>
     rev (before s') @ after s' = rev (before s) @ after s"
  using prog_advance [of "store (ptr s + off) (f (tape s (ptr s + off))) s"]
  by (auto simp: ir_update_def store_def split: if_splits)

lemma step_prog:
  assumes "execute_step heap_size eof s = Running s'"
  shows "rev (before s') @ after s' = rev (before s) @ after s"
proof (cases "after s")
  case Nil
  with assms show ?thesis by (simp add: execute_step_def)
next
  case (Cons x rest)
  then have ne: "after s \<noteq> []" by simp
  note adv = prog_advance [OF ne]
  show ?thesis
  proof (cases x)
    case (MovePtr d)
    with assms Cons prog_advance [of "s\<lparr>ptr := ptr s + d\<rparr>"] show ?thesis
      by (auto simp: execute_step_def split: if_splits)
  next
    case (Add v)
    with assms Cons have "ir_update heap_size 0 (\<lambda>c. c + word_of_int v) s = Running s'"
      by (simp add: execute_step_def)
    then show ?thesis by (rule prog_update [OF _ ne])
  next
    case (Assign v)
    with assms Cons have "ir_update heap_size 0 (\<lambda>c. word_of_int v) s = Running s'"
      by (simp add: execute_step_def)
    then show ?thesis by (rule prog_update [OF _ ne])
  next
    case Putchar
    with assms Cons prog_advance [of "s\<lparr>outp := outp s @ [tape s (ptr s)]\<rparr>"] show ?thesis
      by (auto simp: execute_step_def split: if_splits)
  next
    case Getchar
    show ?thesis
    proof (cases "inp s")
      case Nil
      with Getchar assms \<open>after s = x # rest\<close>
      obtain v where "ir_update heap_size 0 (\<lambda>c. v) s = Running s'"
        by (auto simp: execute_step_def split: option.splits)
      then show ?thesis by (rule prog_update [OF _ ne])
    next
      case (Cons b bs)
      with Getchar assms \<open>after s = x # rest\<close>
      have "ir_update heap_size 0 (\<lambda>c. b) (s\<lparr>inp := bs\<rparr>) = Running s'"
        by (simp add: execute_step_def)
      from prog_update [OF this] ne show ?thesis by simp
    qed
  next
    case LoopStart
    with assms Cons adv show ?thesis
      by (auto simp: execute_step_def ir_jump_fwd_def split: if_splits option.splits
          dest: skip_fwd_prog)
  next
    case IfStart
    with assms Cons adv show ?thesis
      by (auto simp: execute_step_def ir_jump_fwd_def split: if_splits option.splits
          dest: skip_fwd_prog)
  next
    case LoopEnd
    with assms Cons obtain opener b a
      where sk: "skip_bwd ir_class 0 (before s) (after s) = Some (opener, b, a)"
        and s': "s' = s\<lparr>before := b, after := a\<rparr> \<or> s' = advance s"
      by (auto simp: execute_step_def split: if_splits option.splits)
    from skip_bwd_prog [OF sk] s' adv show ?thesis by auto
  next
    case IfEnd
    with assms Cons obtain opener b a
      where sk: "skip_bwd ir_class 0 (before s) (after s) = Some (opener, b, a)"
        and s': "s' = s\<lparr>before := b, after := a\<rparr> \<or> s' = advance s"
      by (auto simp: execute_step_def split: if_splits option.splits)
    from skip_bwd_prog [OF sk] s' adv show ?thesis by auto
  next
    case (SearchZero d)
    with assms Cons adv prog_advance [of "s\<lparr>ptr := p\<rparr>" for p] show ?thesis
      by (auto simp: execute_step_def split: if_splits option.splits)
  next
    case (AddVar off)
    with assms Cons have "ir_update heap_size off (\<lambda>c. c + tape s (ptr s)) s = Running s'"
      by (simp add: execute_step_def)
    then show ?thesis by (rule prog_update [OF _ ne])
  next
    case (SubVar off)
    with assms Cons have "ir_update heap_size off (\<lambda>c. c - tape s (ptr s)) s = Running s'"
      by (simp add: execute_step_def)
    then show ?thesis by (rule prog_update [OF _ ne])
  next
    case (AddMulVar off k)
    with assms Cons
    have "ir_update heap_size off (\<lambda>c. c + tape s (ptr s) * word_of_int k) s = Running s'"
      by (simp add: execute_step_def)
    then show ?thesis by (rule prog_update [OF _ ne])
  next
    case InfLoop
    with assms Cons adv show ?thesis
      by (auto simp: execute_step_def split: if_splits)
  next
    case BreakPoint
    with assms Cons show ?thesis by (simp add: execute_step_def)
  qed
qed

lemma run_sim:
  "run (execute_step MEMORY_SIZE eof_255) n s \<noteq> Failed \<Longrightarrow>
   list_all operands_ok (rev (before s) @ after s) \<Longrightarrow>
     observe (run c_step n (c_of s)) = observe (run (execute_step MEMORY_SIZE eof_255) n s)"
proof (induction n arbitrary: s)
  case 0
  then show ?case by (simp add: c_of_def)
next
  case (Suc n)
  show ?case
  proof (cases "spinning MEMORY_SIZE s")
    case True
    have "run (execute_step MEMORY_SIZE eof_255) (Suc n) s = Running s"
      by (rule spin_ir [OF True])
    moreover have "run c_step (Suc n) (c_of s) = Running (c_in s)"
      by (rule spin_c [OF True])
    ultimately show ?thesis
      by (simp only: observe.simps) (simp add: c_in_def)
  next
    case False
    from Suc.prems have nf: "execute_step MEMORY_SIZE eof_255 s \<noteq> Failed"
      by (auto split: result.splits)
    from Suc.prems(2) have "\<forall>x \<in> set (after s). operands_ok x"
      by (simp add: list_all_iff)
    note st = step_sim [OF nf False this]
    show ?thesis
    proof (cases "execute_step MEMORY_SIZE eof_255 s")
      case (Running s')
      with Suc.prems have r: "run (execute_step MEMORY_SIZE eof_255) n s' \<noteq> Failed" by simp
      from step_prog [OF Running] Suc.prems(2)
      have "list_all operands_ok (rev (before s') @ after s')" by simp
      from Suc.IH [OF r this] Running st show ?thesis by simp
    qed (use st nf in simp_all)
  qed
qed

lemma c_of_start: "c_of (start prog stdin) = start (c_lines prog) stdin"
  by (simp add: c_of_def start_def)

subsection \<open>Runs that never read past the end of input\<close>

lemma step_any_eof:
  "execute_step heap_size no_eof s \<noteq> Failed \<Longrightarrow>
     execute_step heap_size eof s = execute_step heap_size no_eof s"
  by (cases "after s"; cases "hd (after s)"; cases "inp s")
     (auto simp: execute_step_def no_eof_def)

lemma run_any_eof:
  "run (execute_step heap_size no_eof) n s \<noteq> Failed \<Longrightarrow>
     run (execute_step heap_size eof) n s = run (execute_step heap_size no_eof) n s"
proof (induction n arbitrary: s)
  case 0
  then show ?case by simp
next
  case (Suc n)
  from Suc.prems have nf: "execute_step heap_size no_eof s \<noteq> Failed"
    by (auto split: result.splits)
  note st = step_any_eof [OF nf, of eof]
  show ?case
  proof (cases "execute_step heap_size no_eof s")
    case (Running s')
    with Suc.prems have "run (execute_step heap_size no_eof) n s' \<noteq> Failed" by simp
    from Suc.IH [OF this] Running st show ?thesis by simp
  qed (use st nf in simp_all)
qed

subsection \<open>The program text is the text of the statements\<close>

lemma replicate_indent: "concat (replicate k ind) @ ind = ind @ concat (replicate k ind)"
  by (induction k) simp_all

lemma c_text_simps:
  "c_text ind [] [] = []"
  "c_text ind (k # ks) (st # sts) = concat (replicate k ind) @ stmt_text st @ nl @ c_text ind ks sts"
  by (simp_all add: c_text_def c_line_text_def)

lemma c_text_append:
  "length ks = length sts \<Longrightarrow>
     c_text ind (ks @ ks') (sts @ sts') = c_text ind ks sts @ c_text ind ks' sts'"
  by (simp add: c_text_def)

lemma emitOp_text:
  "length (pads (indentLevel g) x) = length (expand x)
   \<and> oStream (emitOp x g) = oStream g @ c_text (indent g) (pads (indentLevel g) x) (expand x)
   \<and> indent (emitOp x g) = indent g"
  by (cases x)
    (simp_all add: pads_def c_text_simps emitMovePointerImpl_def emitAddImpl_def emitAssignImpl_def
      emitPutcharImpl_def emitGetcharImpl_def emitLoopStartImpl_def emitLoopEndImpl_def
      emitIfImpl_def emitEndIfImpl_def emitSearchZeroImpl_def emitAddVarImpl_def
      emitSubVarImpl_def emitAddCMulVarImpl_def emitInfLoopImpl_def emitBreakPointImpl_def
      put_offset_def put_def emitIndent_def incIndent_def decIndent_def Let_def c_place_def
      replicate_indent)

lemma emitOps_text:
  "\<exists>ks. length ks = length (c_lines xs)
     \<and> oStream (emitOps xs g) = oStream g @ c_text (indent g) ks (c_lines xs)
     \<and> indent (emitOps xs g) = indent g"
proof (induction xs arbitrary: g)
  case Nil
  show ?case by (simp add: c_text_simps)
next
  case (Cons x xs)
  note h = emitOp_text [of g x]
  from Cons [of "emitOp x g"] obtain ks where ks: "length ks = length (c_lines xs)"
    "oStream (emitOps xs (emitOp x g)) = oStream (emitOp x g) @ c_text (indent (emitOp x g)) ks (c_lines xs)"
    "indent (emitOps xs (emitOp x g)) = indent (emitOp x g)" by blast
  let ?ks = "pads (indentLevel g) x @ ks"
  from h ks have "length ?ks = length (c_lines (x # xs))" by simp
  moreover from h ks have "oStream (emitOps (x # xs) g) = oStream g @ c_text (indent g) ?ks (c_lines (x # xs))"
    by (simp add: c_text_append)
  moreover from h ks have "indent (emitOps (x # xs) g) = indent g" by simp
  ultimately show ?case by blast
qed

lemma generateC_text:
  "\<exists>ks. length ks = length (c_lines prog) \<and> oStream (generateC ind prog) = c_program ind ks (c_lines prog)"
proof -
  let ?h = "emitHeaderImpl (GeneratorC ind)"
  have ih: "indent ?h = ind" by (simp add: emitHeaderImpl_def GeneratorC_def incIndent_def put_def)
  from emitOps_text [of prog ?h] ih obtain ks where ks: "length ks = length (c_lines prog)"
    "oStream (emitOps prog ?h) = oStream ?h @ c_text ind ks (c_lines prog)"
    "indent (emitOps prog ?h) = ind" by auto
  then have "oStream (generateC ind prog) = c_program ind ks (c_lines prog)"
    by (simp add: generateC_def c_program_def emitFooterImpl_def put_def ih)
  with ks(1) show ?thesis by blast
qed

text \<open>
  On a tape of 65536 cells, for a program with operands below \<open>2 ^ 22\<close> in absolute value and
  every number of steps: when the run of the interpreter does not fail and finds a byte at
  each \<open>Getchar\<close>, the emitted C program has printed what the interpreter has printed and has
  ended or trapped when the interpreter has.
\<close>

lemma c_program_follows_interpreter:
  "(\<exists>ks. length ks = length (c_lines prog)
        \<and> oStream (generateC ind prog) = c_program ind ks (c_lines prog))
   \<and> (list_all operands_ok prog \<and> execute MEMORY_SIZE no_eof n prog stdin \<noteq> Failed \<longrightarrow>
        observe (run_c n prog stdin) = observe (execute MEMORY_SIZE eof_unchanged n prog stdin))"
proof -
  have a: "observe (run_c n prog stdin) = observe (execute MEMORY_SIZE eof_255 n prog stdin)"
    if "execute MEMORY_SIZE eof_255 n prog stdin \<noteq> Failed" and ok: "list_all operands_ok prog"
  proof -
    from ok have "list_all operands_ok (rev (before (start prog stdin)) @ after (start prog stdin))"
      by (simp add: start_def)
    with run_sim [of n "start prog stdin"] that(1) show ?thesis
      by (simp add: run_c_def execute_def c_of_start)
  qed
  have b: "observe (run_c n prog stdin) = observe (execute MEMORY_SIZE eof_unchanged n prog stdin)"
    if nf: "execute MEMORY_SIZE no_eof n prog stdin \<noteq> Failed" and ok: "list_all operands_ok prog"
  proof -
    from nf have r: "run (execute_step MEMORY_SIZE no_eof) n (start prog stdin) \<noteq> Failed"
      by (simp add: execute_def)
    from run_any_eof [OF r]
    have e: "execute MEMORY_SIZE eof_255 n prog stdin = execute MEMORY_SIZE no_eof n prog stdin"
      "execute MEMORY_SIZE eof_unchanged n prog stdin = execute MEMORY_SIZE no_eof n prog stdin"
      by (simp_all add: execute_def)
    with nf a ok show ?thesis by simp
  qed
  from generateC_text [of prog ind] b show ?thesis by blast
qed

section \<open>Claims about the output of the emitted C program\<close>

text \<open>
  C1. The \<open>Getchar\<close> hook of the C backend prints the line \<^verbatim>\<open>*p = (unsigned char) getchar();\<close>.
  Where the interpreter is at a \<open>Getchar\<close> with the pointer inside the tape and the C program
  at that line: when a byte is left on the input both store it in the cell and go on in
  step; at the end of input the interpreter leaves the cell as it is, as the specification
  says, and the C program stores 255, \<^verbatim>\<open>EOF\<close> converted to \<^verbatim>\<open>unsigned char\<close>.
\<close>

theorem C1_getchar_stores_255_at_eof:
  "oStream (emitGetcharImpl g) =
     oStream g @ concat (replicate (nat (indentLevel g)) (indent g))
       @ ''*p = (unsigned char) getchar();'' @ nl
   \<and> expand Getchar = [CGetchar]
   \<and> stmt_text CGetchar = ''*p = (unsigned char) getchar();''
   \<and> (after s = Getchar # rest \<and> in_bounds MEMORY_SIZE (ptr s) \<longrightarrow>
        (inp s = [] \<longrightarrow>
           execute_step MEMORY_SIZE eof_unchanged s = Running (advance s)
         \<and> c_step (c_of s) = Running (c_of (advance (store (ptr s) 255 s))))
      \<and> (inp s = b # bs \<longrightarrow>
           execute_step MEMORY_SIZE eof_unchanged s =
             Running (advance (store (ptr s) b (s\<lparr>inp := bs\<rparr>)))
         \<and> c_step (c_of s) = Running (c_of (advance (store (ptr s) b (s\<lparr>inp := bs\<rparr>))))))"
proof -
  have t: "oStream (emitGetcharImpl g) =
     oStream g @ concat (replicate (nat (indentLevel g)) (indent g))
       @ ''*p = (unsigned char) getchar();'' @ nl"
    by (simp add: emitGetcharImpl_def put_def emitIndent_def)
  have e: "execute_step MEMORY_SIZE eof_unchanged s = Running (advance s)
         \<and> c_step (c_of s) = Running (c_of (advance (store (ptr s) 255 s)))"
    if "after s = Getchar # rest" "in_bounds MEMORY_SIZE (ptr s)" "inp s = []"
  proof -
    have "store (ptr s) (tape s (ptr s)) s = s" by (simp add: store_def)
    moreover have "(tape s)(ptr s := - 1) = (tape s)(ptr s := 255)"
      by (rule arg_cong [where f = "\<lambda>v. (tape s)(ptr s := v)"]) simp
    ultimately show ?thesis using that
      by (simp add: execute_step_def eof_unchanged_def ir_update_def c_step_def c_of_def
          c_getchar_def EOF_def c_assign_def getchar_int_ok bounds_eq [symmetric] deref_ptr_ok
          advance_def store_def)
  qed
  have r: "execute_step MEMORY_SIZE eof_unchanged s =
             Running (advance (store (ptr s) b (s\<lparr>inp := bs\<rparr>)))
         \<and> c_step (c_of s) = Running (c_of (advance (store (ptr s) b (s\<lparr>inp := bs\<rparr>))))"
    if "after s = Getchar # rest" "in_bounds MEMORY_SIZE (ptr s)" "inp s = b # bs"
    using that
    by (simp add: execute_step_def ir_update_def c_step_def c_of_def
        c_getchar_def c_assign_def getchar_int_ok bounds_eq [symmetric] deref_ptr_ok
        advance_def store_def)
  from t e r show ?thesis by simp
qed

theorem C1_getchar_eof_witness:
  "after (start [Getchar, Putchar] []) = Getchar # [Putchar]
   \<and> in_bounds MEMORY_SIZE (ptr (start [Getchar, Putchar] []))
   \<and> inp (start [Getchar, Putchar] []) = []
   \<and> execute_step MEMORY_SIZE eof_unchanged (start [Getchar, Putchar] []) =
       Running (advance (start [Getchar, Putchar] []))
   \<and> c_step (c_of (start [Getchar, Putchar] [])) =
       Running (c_of (advance (store 0 255 (start [Getchar, Putchar] []))))
   \<and> c_lines [Getchar, Putchar] = [CGetchar, CPutchar]
   \<and> observe (run_c 3 [Getchar, Putchar] []) = (Ended, [255, 10])
   \<and> observe (execute MEMORY_SIZE eof_unchanged 3 [Getchar, Putchar] []) = (Ended, [0, 10])
   \<and> observe (run_c 3 [Getchar, Putchar] [65]) = (Ended, [65, 10])
   \<and> observe (execute MEMORY_SIZE eof_unchanged 3 [Getchar, Putchar] [65]) = (Ended, [65, 10])"
proof -
  let ?s = "start [Getchar, Putchar] []"
  have h: "after ?s = Getchar # [Putchar]" "in_bounds MEMORY_SIZE (ptr ?s)" "inp ?s = []"
    and p: "ptr ?s = 0"
    by (simp_all add: start_def in_bounds_def MEMORY_SIZE_def)
  from C1_getchar_stores_255_at_eof [where s = ?s and rest = "[Putchar]"] h
  have st: "execute_step MEMORY_SIZE eof_unchanged ?s = Running (advance ?s)"
      "c_step (c_of ?s) = Running (c_of (advance (store (ptr ?s) 255 ?s)))"
    by blast+
  have runs: "c_lines [Getchar, Putchar] = [CGetchar, CPutchar]"
      "observe (run_c 3 [Getchar, Putchar] []) = (Ended, [255, 10])"
      "observe (execute MEMORY_SIZE eof_unchanged 3 [Getchar, Putchar] []) = (Ended, [0, 10])"
      "observe (run_c 3 [Getchar, Putchar] [65]) = (Ended, [65, 10])"
      "observe (execute MEMORY_SIZE eof_unchanged 3 [Getchar, Putchar] [65]) = (Ended, [65, 10])"
    by (simp_all add: run_c_def execute_def start_def numeral_3_eq_3 c_step_def execute_step_def
        c_assign_def ir_update_def advance_def store_def c_getchar_def EOF_def eof_unchanged_def
        in_bounds_def c_deref_ok_def c_ptr_ok_def c_int_ok_def MEMORY_SIZE_def)
  from h st [unfolded p] runs show ?thesis by blast
qed

section \<open>The code emitted for \<open>InfLoop\<close>\<close>

lemma c_infloop_zero:
  assumes "after c = expand InfLoop @ rest" "c_deref_ok (ptr c)" "tape c (ptr c) = 0"
  shows "c_step c = Running (c\<lparr>before := rev (expand InfLoop) @ before c, after := rest\<rparr>)"
  using assms by (simp add: c_step_def c_jump_fwd_def)

lemma c_forever: "after c = CForever # rest \<Longrightarrow> run c_step n c = Running c"
proof (induction n)
  case 0
  then show ?case by simp
next
  case (Suc n)
  then show ?case by (simp add: c_step_def)
qed

lemma c_infloop_spin:
  assumes "after c = expand InfLoop @ rest" "c_deref_ok (ptr c)" "tape c (ptr c) \<noteq> 0"
  shows "run c_step (Suc n) c =
     Running (c\<lparr>before := CIf # before c, after := CForever # CClose # rest\<rparr>)"
proof -
  from assms have "c_step c = Running (c\<lparr>before := CIf # before c, after := CForever # CClose # rest\<rparr>)"
    by (simp add: c_step_def advance_def)
  then show ?thesis by (simp add: c_forever)
qed

lemma emitInfLoopImpl_sequence:
  assumes "0 \<le> indentLevel g"
  shows "oStream (emitInfLoopImpl g) =
     oStream (emitEndIfImpl (put (''for (;;);'' @ nl) (emitIndent (emitIfImpl g))))"
proof -
  from assms have "nat (indentLevel g + 1) = Suc (nat (indentLevel g))" by simp
  then show ?thesis
    by (simp add: emitInfLoopImpl_def emitEndIfImpl_def emitLoopEndImpl_def emitIfImpl_def
        put_def emitIndent_def incIndent_def decIndent_def Let_def replicate_indent)
qed

lemma le_signed_2: "le_signed [2, 0, 0, 0] = 2" "le_signed [0xfe] = - 2"
  by (simp_all add: le_signed_def)

lemma x86_cmp:
  assumes "eip m = length pre"
  shows "x86_step (pre @ infloop_code @ post) m =
     Some (m\<lparr>eip := length pre + 3, zf := (mem m (ecx m) = 0)\<rparr>)"
  using assms by (simp add: x86_step_def infloop_code_def)

lemma x86_je:
  assumes "eip m = length pre + 3"
  shows "x86_step (pre @ infloop_code @ post) m =
     Some (m\<lparr>eip := (if zf m then length pre + 11 else length pre + 9)\<rparr>)"
  using assms
  by (simp add: x86_step_def infloop_code_def je_target_def le_signed_2 goto_def nat_add_distrib)

lemma x86_jmp:
  assumes "eip m = length pre + 9"
  shows "x86_step (pre @ infloop_code @ post) m = Some m"
  using assms
  by (simp add: x86_step_def infloop_code_def jmp_target_def le_signed_2 goto_def)

lemma x86_spin:
  assumes "eip m = length pre + 9"
  shows "x86_run (pre @ infloop_code @ post) n m = Some m"
  by (induction n) (simp_all add: x86_jmp [OF assms])

lemma x86_infloop_zero:
  assumes "eip m = length pre" "mem m (ecx m) = 0"
  shows "x86_run (pre @ infloop_code @ post) 2 m = Some (m\<lparr>eip := length pre + 11, zf := True\<rparr>)"
proof -
  let ?m1 = "m\<lparr>eip := length pre + 3, zf := True\<rparr>"
  from assms have s1: "x86_step (pre @ infloop_code @ post) m = Some ?m1"
    by (simp add: x86_cmp)
  have s2: "x86_step (pre @ infloop_code @ post) ?m1 = Some (?m1\<lparr>eip := length pre + 11\<rparr>)"
    by (simp add: x86_je [of ?m1 pre])
  from s1 s2 show ?thesis by (simp add: numeral_2_eq_2)
qed

lemma x86_infloop_spin:
  assumes "eip m = length pre" "mem m (ecx m) \<noteq> 0"
  shows "x86_run (pre @ infloop_code @ post) (Suc (Suc n)) m =
     Some (m\<lparr>eip := length pre + 9, zf := False\<rparr>)"
proof -
  let ?m1 = "m\<lparr>eip := length pre + 3, zf := False\<rparr>"
  let ?m2 = "m\<lparr>eip := length pre + 9, zf := False\<rparr>"
  from assms have s1: "x86_step (pre @ infloop_code @ post) m = Some ?m1"
    by (simp add: x86_cmp)
  have s2: "x86_step (pre @ infloop_code @ post) ?m1 = Some ?m2"
    by (simp add: x86_je [of ?m1 pre])
  have s3: "x86_run (pre @ infloop_code @ post) n ?m2 = Some ?m2"
    by (rule x86_spin) simp
  from s1 s2 s3 show ?thesis by simp
qed

lemma elf_infloop_code:
  assumes "at_end g"
  shows "\<exists>g'. elf_emitInfLoopImpl g = Some g' \<and> sink g' = sink g @ infloop_code
     \<and> tellp g' = length (sink g') \<and> loopStack g' = loopStack g"
  using elf_emitInfLoopImpl_at_end [OF assms]
  by (simp add: infloop_code_def le_bytes_4)

lemma emitInfLoopImpl_text:
  "oStream (emitInfLoopImpl g) =
     oStream g @ c_text (indent g) (pads (indentLevel g) InfLoop) (expand InfLoop)"
  by (simp add: pads_def c_text_simps emitInfLoopImpl_def put_def emitIndent_def Let_def
      replicate_indent)

text \<open>
  C7. The C backend prints for \<open>InfLoop\<close> what the \<open>IfStart\<close> hook, a line \<^verbatim>\<open>for (;;);\<close> and the
  \<open>IfEnd\<close> hook print, the statements \<^verbatim>\<open>if (*p) {\<close>, \<^verbatim>\<open>for (;;);\<close>, \<^verbatim>\<open>}\<close>. Run on a zero cell they
  are passed in one step with pointer, tape, input and output as they were; on a non-zero
  cell the program is at \<^verbatim>\<open>for (;;);\<close> after every number of steps, with pointer, tape, input
  and output as they were. The x86 ELF backend emits a compare of the cell with zero, a
  \<^verbatim>\<open>je\<close> over the next instruction and a \<^verbatim>\<open>jmp\<close> to itself. Run on a zero cell the machine is
  behind the code after two instructions, on a non-zero cell it is at the \<^verbatim>\<open>jmp\<close> after every
  number of instructions from two on; registers other than the flags and memory are as
  they were in both cases.
\<close>

theorem C7_infloop_is_guarded_self_jump:
  "(0 \<le> indentLevel g \<longrightarrow>
      oStream (emitInfLoopImpl g) =
        oStream (emitEndIfImpl (put (''for (;;);'' @ nl) (emitIndent (emitIfImpl g)))))
   \<and> oStream (emitInfLoopImpl g) =
        oStream g @ c_text (indent g) (pads (indentLevel g) InfLoop) (expand InfLoop)
   \<and> (after c = expand InfLoop @ rest \<and> c_deref_ok (ptr c) \<longrightarrow>
        (tape c (ptr c) = 0 \<longrightarrow>
           c_step c = Running (c\<lparr>before := rev (expand InfLoop) @ before c, after := rest\<rparr>))
      \<and> (tape c (ptr c) \<noteq> 0 \<longrightarrow>
           run c_step (Suc n) c =
             Running (c\<lparr>before := CIf # before c, after := CForever # CClose # rest\<rparr>)))
   \<and> (at_end gb \<and> eip m = length (sink gb) \<longrightarrow>
        (\<exists>gb'. elf_emitInfLoopImpl gb = Some gb' \<and> sink gb' = sink gb @ infloop_code
           \<and> (mem m (ecx m) = 0 \<longrightarrow>
                x86_run (sink gb' @ post) 2 m = Some (m\<lparr>eip := length (sink gb'), zf := True\<rparr>))
           \<and> (mem m (ecx m) \<noteq> 0 \<longrightarrow>
                x86_run (sink gb' @ post) (Suc (Suc n)) m =
                  Some (m\<lparr>eip := length (sink gb) + 9, zf := False\<rparr>))))"
proof -
  have elf: "\<exists>gb'. elf_emitInfLoopImpl gb = Some gb' \<and> sink gb' = sink gb @ infloop_code
           \<and> (mem m (ecx m) = 0 \<longrightarrow>
                x86_run (sink gb' @ post) 2 m = Some (m\<lparr>eip := length (sink gb'), zf := True\<rparr>))
           \<and> (mem m (ecx m) \<noteq> 0 \<longrightarrow>
                x86_run (sink gb' @ post) (Suc (Suc n)) m =
                  Some (m\<lparr>eip := length (sink gb) + 9, zf := False\<rparr>))"
    if e: "at_end gb" and ip: "eip m = length (sink gb)"
  proof -
    from elf_infloop_code [OF e] obtain gb' where g': "elf_emitInfLoopImpl gb = Some gb'"
      "sink gb' = sink gb @ infloop_code" by blast
    have len: "length (sink gb') = length (sink gb) + 11"
      by (simp add: g'(2) infloop_code_def)
    have z: "x86_run (sink gb' @ post) 2 m = Some (m\<lparr>eip := length (sink gb'), zf := True\<rparr>)"
      if "mem m (ecx m) = 0"
      using x86_infloop_zero [OF ip that, of post] by (simp add: g'(2) infloop_code_def)
    have s: "x86_run (sink gb' @ post) (Suc (Suc n)) m =
        Some (m\<lparr>eip := length (sink gb) + 9, zf := False\<rparr>)" if "mem m (ecx m) \<noteq> 0"
      using x86_infloop_spin [OF ip that, of post n] by (simp add: g'(2))
    from g' z s show ?thesis by blast
  qed
  from emitInfLoopImpl_sequence [of g] emitInfLoopImpl_text [of g]
    c_infloop_zero [of c rest] c_infloop_spin [of c rest n] elf
  show ?thesis by blast
qed

theorem C7_infloop_witness:
  "oStream (emitInfLoopImpl (incIndent (GeneratorC ''  ''))) =
     ''  if (*p) {'' @ nl @ ''    for (;;);'' @ nl @ ''  }'' @ nl
   \<and> c_step (start (c_lines [InfLoop]) []) =
       Running ((start (c_lines [InfLoop]) [])\<lparr>before := [CClose, CForever, CIf], after := []\<rparr>)
   \<and> run c_step 6 (store 0 1 (start (c_lines [InfLoop]) [])) =
       Running ((store 0 1 (start (c_lines [InfLoop]) []))\<lparr>before := [CIf], after := [CForever, CClose]\<rparr>)
   \<and> map_option sink (elf_emitInfLoopImpl GeneratorElfX86) = Some infloop_code
   \<and> x86_run infloop_code 2 (x86_start 0) = Some ((x86_start 0)\<lparr>eip := 11, zf := True\<rparr>)
   \<and> x86_run infloop_code 7 (x86_start 1) = Some ((x86_start 1)\<lparr>eip := 9, zf := False\<rparr>)"
proof -
  let ?g = "incIndent (GeneratorC ''  '')"
  let ?c0 = "start (c_lines [InfLoop]) []"
  let ?c1 = "store 0 1 (start (c_lines [InfLoop]) [])"
  note zero = C7_infloop_is_guarded_self_jump
    [where g = ?g and c = ?c0 and rest = "[]" and n = 4 and gb = GeneratorElfX86
       and m = "x86_start 0" and post = "[]"]
  note spin = C7_infloop_is_guarded_self_jump
    [where g = ?g and c = ?c1 and rest = "[]" and n = 5 and gb = GeneratorElfX86
       and m = "x86_start 1" and post = "[]"]
  have e: "at_end GeneratorElfX86" "sink GeneratorElfX86 = []"
    by (simp_all add: at_end_def GeneratorElfX86_def)
  have n: "(6::nat) = Suc 5" "(7::nat) = Suc (Suc 5)" by simp_all
  have "oStream (emitInfLoopImpl ?g) =
      oStream ?g @ c_text (indent ?g) (pads (indentLevel ?g) InfLoop) (expand InfLoop)"
    by (rule conjunct1 [OF conjunct2 [OF zero]])
  then have t: "oStream (emitInfLoopImpl ?g) =
      ''  if (*p) {'' @ nl @ ''    for (;;);'' @ nl @ ''  }'' @ nl"
    by (simp add: incIndent_def GeneratorC_def pads_def c_text_simps)
  have c0: "c_step ?c0 = Running (?c0\<lparr>before := [CClose, CForever, CIf], after := []\<rparr>)"
    using conjunct1 [OF conjunct2 [OF conjunct2 [OF zero]]]
    by (simp add: start_def c_deref_ok_def MEMORY_SIZE_def)
  have c1: "run c_step 6 ?c1 = Running (?c1\<lparr>before := [CIf], after := [CForever, CClose]\<rparr>)"
    unfolding n using conjunct1 [OF conjunct2 [OF conjunct2 [OF spin]]]
    by (simp add: start_def store_def c_deref_ok_def MEMORY_SIZE_def)
  have "\<exists>gb'. elf_emitInfLoopImpl GeneratorElfX86 = Some gb' \<and> sink gb' = infloop_code
      \<and> x86_run (sink gb') 2 (x86_start 0) =
          Some ((x86_start 0)\<lparr>eip := length (sink gb'), zf := True\<rparr>)"
    using conjunct2 [OF conjunct2 [OF conjunct2 [OF zero]]] e
    by (simp add: x86_start_def)
  then obtain gb' where z: "elf_emitInfLoopImpl GeneratorElfX86 = Some gb'"
      "sink gb' = infloop_code"
      "x86_run (sink gb') 2 (x86_start 0) =
         Some ((x86_start 0)\<lparr>eip := length (sink gb'), zf := True\<rparr>)"
    by blast
  have s: "x86_run infloop_code (Suc (Suc 5)) (x86_start 1) =
      Some ((x86_start 1)\<lparr>eip := 9, zf := False\<rparr>)"
    using conjunct2 [OF conjunct2 [OF conjunct2 [OF spin]]] e
    by (auto simp: x86_start_def)
  have x0: "x86_run infloop_code 2 (x86_start 0) = Some ((x86_start 0)\<lparr>eip := 11, zf := True\<rparr>)"
    using z(3) unfolding z(2) by (simp add: infloop_code_def)
  have x1: "x86_run infloop_code 7 (x86_start 1) = Some ((x86_start 1)\<lparr>eip := 9, zf := False\<rparr>)"
    unfolding n using s .
  from t c0 c1 z(1,2) x0 x1 show ?thesis by simp
qed

end
